theory Spec2Isabelle
  imports Main "HOL-Library.Char_ord" "HOL-Library.List_Lexorder" "HOL-Library.Sublist"
begin

section \<open>Strings and the host's string primitives\<close>

text \<open>
  Strings of the TypeScript source are modelled as \<^typ>\<open>string\<close>: lists of characters,
  a character being a code unit below 256 (the Latin-1 range). The primitives below are
  the parts of the JavaScript string and array library that \<^verbatim>\<open>azureCidrAnalyzer.ts\<close>
  calls, on such strings. \<^verbatim>\<open>toLowerCase\<close> maps the letters \<^verbatim>\<open>A\<close> to \<^verbatim>\<open>Z\<close> and the code
  units \<^verbatim>\<open>C0\<close> to \<^verbatim>\<open>DE\<close> other than \<^verbatim>\<open>D7\<close> (the multiplication sign) to the code unit
  32 above, and leaves every other code unit of the range as it is.
\<close>

definition upper_case_letters :: string where
  "upper_case_letters =
     ''ABCDEFGHIJKLMNOPQRSTUVWXYZ'' @
     [CHR 0xC0, CHR 0xC1, CHR 0xC2, CHR 0xC3, CHR 0xC4, CHR 0xC5, CHR 0xC6, CHR 0xC7,
      CHR 0xC8, CHR 0xC9, CHR 0xCA, CHR 0xCB, CHR 0xCC, CHR 0xCD, CHR 0xCE, CHR 0xCF,
      CHR 0xD0, CHR 0xD1, CHR 0xD2, CHR 0xD3, CHR 0xD4, CHR 0xD5, CHR 0xD6, CHR 0xD8,
      CHR 0xD9, CHR 0xDA, CHR 0xDB, CHR 0xDC, CHR 0xDD, CHR 0xDE]"

definition lower_case_letters :: string where
  "lower_case_letters =
     ''abcdefghijklmnopqrstuvwxyz'' @
     [CHR 0xE0, CHR 0xE1, CHR 0xE2, CHR 0xE3, CHR 0xE4, CHR 0xE5, CHR 0xE6, CHR 0xE7,
      CHR 0xE8, CHR 0xE9, CHR 0xEA, CHR 0xEB, CHR 0xEC, CHR 0xED, CHR 0xEE, CHR 0xEF,
      CHR 0xF0, CHR 0xF1, CHR 0xF2, CHR 0xF3, CHR 0xF4, CHR 0xF5, CHR 0xF6, CHR 0xF8,
      CHR 0xF9, CHR 0xFA, CHR 0xFB, CHR 0xFC, CHR 0xFD, CHR 0xFE]"

definition toLowerCase_char :: "char \<Rightarrow> char" where
  "toLowerCase_char c =
     (case map_of (zip upper_case_letters lower_case_letters) c of
        Some l \<Rightarrow> l
      | None \<Rightarrow> c)"

definition toLowerCase :: "string \<Rightarrow> string" where
  "toLowerCase s = map toLowerCase_char s"

text \<open>\<^verbatim>\<open>Boolean(s)\<close> on a string: the empty string is the only falsy one.\<close>

definition Boolean :: "string \<Rightarrow> bool" where
  "Boolean s = (s \<noteq> [])"

text \<open>\<^verbatim>\<open>s.includes(c)\<close> for a one-character needle.\<close>

definition includes_char :: "string \<Rightarrow> char \<Rightarrow> bool" where
  "includes_char s c = (c \<in> set s)"

text \<open>\<^verbatim>\<open>xs.join(sep)\<close>.\<close>

fun join :: "string \<Rightarrow> string list \<Rightarrow> string" where
  "join sep [] = []"
| "join sep [x] = x"
| "join sep (x # y # ys) = x @ sep @ join sep (y # ys)"

text \<open>
  A JavaScript \<^verbatim>\<open>Set\<close> keeps its members in insertion order, and \<^verbatim>\<open>add\<close> of a member
  it already has changes nothing. A set is modelled by the list of its members in that
  order, which is also what \<^verbatim>\<open>Array.from(set)\<close> returns; \<open>Set_add_all\<close> is
  \<^verbatim>\<open>new Set(xs)\<close> for the empty start, and \<open>Array_from_Set xs\<close> is
  \<^verbatim>\<open>Array.from(new Set(xs))\<close>.
\<close>

definition Set_add :: "'a list \<Rightarrow> 'a \<Rightarrow> 'a list" where
  "Set_add s x = (if x \<in> set s then s else s @ [x])"

definition Set_add_all :: "'a list \<Rightarrow> 'a list \<Rightarrow> 'a list" where
  "Set_add_all s xs = fold (\<lambda>x acc. Set_add acc x) xs s"

definition Array_from_Set :: "'a list \<Rightarrow> 'a list" where
  "Array_from_Set xs = Set_add_all [] xs"

text \<open>
  \<^verbatim>\<open>s.replace(/c/g, rep)\<close> for a one-character pattern \<^verbatim>\<open>c\<close> and a replacement text without
  \<^verbatim>\<open>$\<close> patterns.
\<close>

definition replace_char :: "char \<Rightarrow> string \<Rightarrow> string \<Rightarrow> string" where
  "replace_char c rep s = concat (map (\<lambda>x. if x = c then rep else [x]) s)"

text \<open>
  \<^verbatim>\<open>s.replace(new RegExp(pat, 'g'), rep)\<close> for a non-empty pattern \<^verbatim>\<open>pat\<close> made of
  literal characters only: matches are found from left to right and do not overlap.
\<close>

fun replace_all :: "string \<Rightarrow> string \<Rightarrow> string \<Rightarrow> string" where
  "replace_all pat rep [] = []"
| "replace_all pat rep (c # cs) =
     (if take (length pat) (c # cs) = pat
      then rep @ replace_all pat rep (drop (length pat - 1) cs)
      else c # replace_all pat rep cs)"

abbreviation backslash :: char where "backslash \<equiv> CHR 0x5C"
abbreviation quote :: char where "quote \<equiv> CHR 0x27"
abbreviation dquote :: char where "dquote \<equiv> CHR 0x22"
abbreviation newline :: char where "newline \<equiv> CHR 0x0A"

section \<open>The query builder\<close>

text \<open>
  \<^verbatim>\<open>buildResourceGraphQuery(cidrs)\<close>. The local constants of the function body are
  definitions of their own, each a function of \<^verbatim>\<open>cidrs\<close>.
\<close>

definition lower :: "string list \<Rightarrow> string list" where
  "lower cidrs = Array_from_Set (filter Boolean (map toLowerCase cidrs))"

definition exactMatches :: "string list \<Rightarrow> string list" where
  "exactMatches cidrs = filter (\<lambda>c. \<not> includes_char c (CHR ''*'')) (lower cidrs)"

definition wildcardMatches :: "string list \<Rightarrow> string list" where
  "wildcardMatches cidrs = filter (\<lambda>c. includes_char c (CHR ''*'')) (lower cidrs)"

text \<open>The character class \<^verbatim>\<open>[.+?^${}()|[\]\\]\<close> of the escaping step.\<close>

definition regex_special :: "char \<Rightarrow> bool" where
  "regex_special c = (c \<in> set (''.+?^${}()|[]'' @ [backslash]))"

definition placeholder :: string where
  "placeholder = ''__WILDCARD__''"

definition toRegex :: "string \<Rightarrow> string" where
  "toRegex v =
     (let withPlaceholder = replace_char (CHR ''*'') placeholder v;
          escaped = concat (map (\<lambda>x. if regex_special x then [backslash, x] else [x]) withPlaceholder);
          regexBody = replace_all placeholder ''.*'' escaped;
          anchored = ''^'' @ regexBody @ ''$''
      in [quote] @ replace_char quote [backslash, quote] anchored @ [quote])"

definition clauses :: "string list \<Rightarrow> string list" where
  "clauses cidrs =
     (if exactMatches cidrs \<noteq> []
      then [''prefixStr in~ ('' @
              join '', '' (map (\<lambda>c. [quote] @ replace_char quote [backslash, quote] c @ [quote])
                             (exactMatches cidrs)) @ '')'']
      else []) @
     (if wildcardMatches cidrs \<noteq> []
      then [join '' or '' (map (\<lambda>v. ''prefixStr matches regex '' @ toRegex v) (wildcardMatches cidrs))]
      else [])"

definition filterClause :: "string list \<Rightarrow> string" where
  "filterClause cidrs =
     (if clauses cidrs \<noteq> [] then [newline] @ ''| where '' @ join '' or '' (clauses cidrs) else [])"

definition query_head :: string where
  "query_head = join [newline]
     [''Resources'',
      ''| where type in~ ('microsoft.network/virtualnetworks', 'microsoft.network/virtualnetworks/subnets', 'microsoft.network/publicipprefixes', 'microsoft.network/ipgroups')'',
      ''| extend prefixes = case('',
      ''    type =~ 'microsoft.network/virtualnetworks', properties.addressSpace.addressPrefixes,'',
      ''    type =~ 'microsoft.network/virtualnetworks/subnets', coalesce(properties.addressPrefixes, pack_array(properties.addressPrefix)),'',
      ''    type =~ 'microsoft.network/publicipprefixes', pack_array(properties.ipPrefix),'',
      ''    type =~ 'microsoft.network/ipgroups', properties.ipAddresses,'',
      ''    dynamic([])'',
      ''  )'',
      ''| mv-expand prefix = prefixes'',
      ''| where isnotempty(prefix)'',
      ''| extend prefixStr = tolower(tostring(prefix))'']"

definition query_tail :: string where
  "query_tail = [newline] @ ''| project name, type, location, resourceGroup, subscriptionId, prefixStr, id''"

definition buildResourceGraphQuery :: "string list \<Rightarrow> string" where
  "buildResourceGraphQuery cidrs = query_head @ filterClause cidrs @ query_tail"


section \<open>Result rows, columns and the delimited text\<close>

text \<open>
  A value of a result row, as far as the export formats it. A number is given by the
  decimal text that \<^verbatim>\<open>String(n)\<close> returns for it, an object or array by the text that
  \<^verbatim>\<open>JSON.stringify\<close> returns for it, and a function by the text that \<^verbatim>\<open>String(f)\<close>
  returns for it: the formatting of the host is not part of this program.
\<close>

datatype jsvalue =
    JNull
  | JBoolean bool
  | JNumber string
  | JString string
  | JObject string
  | JFunction string

text \<open>
  A row is a plain object, as \<^verbatim>\<open>response.json()\<close> builds it: the list of its own
  properties in the order of enumeration, each key once. \<^verbatim>\<open>Object.keys\<close> lists the own keys.
\<close>

type_synonym GraphResult = "(string \<times> jsvalue) list"

definition Object_keys :: "GraphResult \<Rightarrow> string list" where
  "Object_keys row = map fst row"

text \<open>
  The members that a plain object inherits from \<^verbatim>\<open>Object.prototype\<close>. A built-in function
  prints as \<^verbatim>\<open>function name() { [native code] }\<close> in the engine of the extension host (V8);
  \<^verbatim>\<open>__proto__\<close> reads as the prototype object itself, which has no enumerable property of
  its own and so the JSON text \<^verbatim>\<open>{}\<close>.
\<close>

definition native_function :: "string \<Rightarrow> jsvalue" where
  "native_function name = JFunction (''function '' @ name @ ''() { [native code] }'')"

definition Object_prototype :: "(string \<times> jsvalue) list" where
  "Object_prototype =
     (''constructor'', native_function ''Object'') #
     (''__proto__'', JObject ''{}'') #
     map (\<lambda>name. (name, native_function name))
       [''__defineGetter__'', ''__defineSetter__'', ''hasOwnProperty'', ''__lookupGetter__'',
        ''__lookupSetter__'', ''isPrototypeOf'', ''propertyIsEnumerable'', ''toString'',
        ''valueOf'', ''toLocaleString'']"

text \<open>
  The property access \<^verbatim>\<open>row[col]\<close>: the own property of that name, or else the inherited
  member of that name, or else \<^verbatim>\<open>undefined\<close>, which is \<^const>\<open>None\<close>.
\<close>

definition property :: "GraphResult \<Rightarrow> string \<Rightarrow> jsvalue option" where
  "property row col =
     (case map_of row col of
        Some v \<Rightarrow> Some v
      | None \<Rightarrow> map_of Object_prototype col)"

text \<open>\<^verbatim>\<open>collectColumns(rows)\<close>; \<^verbatim>\<open>sort()\<close> without a comparator orders strings by code unit.\<close>

definition collectColumns :: "GraphResult list \<Rightarrow> string list" where
  "collectColumns rows =
     sort (fold (\<lambda>row cols. fold (\<lambda>key cols. Set_add cols key) (Object_keys row) cols) rows [])"

text \<open>
  \<^verbatim>\<open>String(value)\<close>. The export calls it for a value that is neither \<^verbatim>\<open>null\<close> nor an
  object; the equations for these two make the function total and are not used by it.
\<close>

fun String_of :: "jsvalue \<Rightarrow> string" where
  "String_of (JBoolean b) = (if b then ''true'' else ''false'')"
| "String_of (JNumber t) = t"
| "String_of (JString s) = s"
| "String_of (JFunction t) = t"
| "String_of JNull = ''null''"
| "String_of (JObject j) = ''[object Object]''"

text \<open>The quoting \<^verbatim>\<open>`"${str.replace(/"/g, '""')}"`\<close> of the export.\<close>

definition csv_quote :: "string \<Rightarrow> string" where
  "csv_quote str = [dquote] @ replace_char dquote [dquote, dquote] str @ [dquote]"

definition csv_cell :: "GraphResult \<Rightarrow> string \<Rightarrow> string" where
  "csv_cell row col =
     (case property row col of
        None \<Rightarrow> [dquote, dquote]
      | Some JNull \<Rightarrow> [dquote, dquote]
      | Some (JObject j) \<Rightarrow> csv_quote j
      | Some v \<Rightarrow> csv_quote (String_of v))"

definition header :: "string list \<Rightarrow> string" where
  "header columns = join '','' (map csv_quote columns)"

definition csvBody :: "GraphResult list \<Rightarrow> string list \<Rightarrow> string" where
  "csvBody rows columns = join [newline] (map (\<lambda>row. join '','' (map (csv_cell row) columns)) rows)"

section \<open>The environment: configuration and the two Azure endpoints\<close>

text \<open>
  What a request to an endpoint comes to: an exception with a message (the request was
  rejected, or the body could not be read), a response that is not \<^verbatim>\<open>ok\<close> with the
  error text extracted from its body, or an \<^verbatim>\<open>ok\<close> response with its payload.
\<close>

datatype 'a response = Threw string | NotOk string | Ok 'a

text \<open>
  The interface \<^verbatim>\<open>SubscriptionInfo\<close>; its fields \<^verbatim>\<open>id\<close> and \<^verbatim>\<open>name\<close> are \<open>sub_id\<close> and
  \<open>sub_name\<close> here, and a name that is absent is \<^const>\<open>None\<close>.
\<close>

record SubscriptionInfo =
  sub_id :: string
  sub_name :: "string option"

text \<open>
  An entry of the \<^verbatim>\<open>value\<close> array of the subscription list: each field is present when
  it is a string.
\<close>

record raw_entry =
  subscriptionId :: "string option"
  displayName :: "string option"

text \<open>
  The payloads are \<^const>\<open>None\<close> when \<^verbatim>\<open>payload.value\<close> (for subscriptions) or
  \<^verbatim>\<open>data.data\<close> (for the resource graph) is not an array.
\<close>

record env =
  azureGraphToken :: "string option"
  subscriptions_api :: "string \<Rightarrow> raw_entry list option response"
  resource_graph_api :: "string \<Rightarrow> string list \<Rightarrow> string \<Rightarrow> GraphResult list option response"

section \<open>Messages, effects and state\<close>

datatype IncomingMessage =
    LookupMessage string "string list option"
  | ExportMessage
  | RequestSubscriptionsMessage

datatype status = Running | Done nat | Error string

datatype outbound =
    SetLoading bool
  | SubscriptionOptions "SubscriptionInfo list"
  | InitSubscriptions "SubscriptionInfo list"
  | SubscriptionStatus string status
  | DisplayResults "string list" "GraphResult list" "string list"
  | ShowError string
  | ShowInfo string

text \<open>
  What a handler does to the outside: a message posted to the webview, a notification of
  the editor, or a call of \<^verbatim>\<open>exportCsv\<close> of the exporter module (module name, base file
  name, content, header), the only place where a file is written.
\<close>

datatype effect =
    PostMessage outbound
  | ShowErrorMessage string
  | ShowWarningMessage string
  | ExportCsv string string string string

text \<open>
  The state: \<^verbatim>\<open>lastResults\<close> of the panel and the two module-level cache variables.
\<close>

record state =
  lastResults :: "GraphResult list"
  cachedSubscriptions :: "SubscriptionInfo list option"
  cachedToken :: "string option"

definition initial_state :: state where
  "initial_state = \<lparr>lastResults = [], cachedSubscriptions = None, cachedToken = None\<rparr>"

section \<open>Querying one subscription\<close>

text \<open>
  \<^verbatim>\<open>queryAzureForCidrs\<close>: the rows of the response, or the message of the error it throws.
  Its lines to the console are left out.
\<close>

definition queryAzureForCidrs :: "env \<Rightarrow> string \<Rightarrow> string list \<Rightarrow> string list \<Rightarrow> string + GraphResult list" where
  "queryAzureForCidrs e token cidrs subscriptions =
     (if subscriptions = [] then Inr []
      else case resource_graph_api e token subscriptions (buildResourceGraphQuery cidrs) of
             Threw m \<Rightarrow> Inl m
           | NotOk errorText \<Rightarrow> Inl (''Azure Resource Graph request failed: '' @ errorText)
           | Ok data \<Rightarrow> Inr (case data of Some rows \<Rightarrow> rows | None \<Rightarrow> []))"

section \<open>The subscription resolver\<close>

text \<open>
  \<^verbatim>\<open>listSubscriptions(token)\<close>, in two parts: the request made when the cache does not
  answer, and the test of the cache before it.
\<close>

definition fetch_subscriptions :: "env \<Rightarrow> string \<Rightarrow> state \<Rightarrow> (string + SubscriptionInfo list) \<times> state" where
  "fetch_subscriptions e token st =
     (case subscriptions_api e token of
        Threw m \<Rightarrow> (Inl m, st)
      | NotOk detail \<Rightarrow> (Inl (''Unable to list subscriptions: '' @ detail), st)
      | Ok payload \<Rightarrow>
          (let subs = (case payload of
                         Some entries \<Rightarrow>
                           filter (\<lambda>entry. length (sub_id entry) > 0)
                             (map (\<lambda>entry. \<lparr>sub_id = (case subscriptionId entry of Some i \<Rightarrow> i | None \<Rightarrow> []),
                                            sub_name = displayName entry\<rparr>) entries)
                       | None \<Rightarrow> [])
           in if subs = []
              then (Inl ''No subscriptions returned for the current token. Verify the token scope and permissions.'', st)
              else (Inr subs, st\<lparr>cachedToken := Some token, cachedSubscriptions := Some subs\<rparr>)))"

definition listSubscriptions :: "env \<Rightarrow> string \<Rightarrow> state \<Rightarrow> (string + SubscriptionInfo list) \<times> state" where
  "listSubscriptions e token st =
     (case cachedSubscriptions st of
        Some subs \<Rightarrow>
          if subs \<noteq> [] \<and> cachedToken st = Some token then (Inr subs, st)
          else fetch_subscriptions e token st
      | None \<Rightarrow> fetch_subscriptions e token st)"

text \<open>\<^verbatim>\<open>new Map(entries)\<close>: a later entry replaces an earlier one with the same key.\<close>

definition new_Map :: "('k \<times> 'v) list \<Rightarrow> ('k \<rightharpoonup> 'v)" where
  "new_Map entries = fold (\<lambda>(k, v) m. m(k \<mapsto> v)) entries Map.empty"

text \<open>The loop of \<^verbatim>\<open>resolveSubscriptions\<close> over the requested ids, with its two variables.\<close>

fun resolve_loop ::
  "(string \<rightharpoonup> SubscriptionInfo) \<Rightarrow> string list \<Rightarrow> SubscriptionInfo list \<Rightarrow> string list \<Rightarrow> SubscriptionInfo list" where
  "resolve_loop byId [] unique seen = unique"
| "resolve_loop byId (raw # rest) unique seen =
     (let key = toLowerCase raw
      in if key \<in> set seen then resolve_loop byId rest unique seen
         else resolve_loop byId rest
                (unique @ [case byId key of
                             Some match \<Rightarrow> match
                           | None \<Rightarrow> \<lparr>sub_id = raw, sub_name = None\<rparr>])
                (Set_add seen key))"

definition resolveSubscriptions ::
  "env \<Rightarrow> string \<Rightarrow> string list \<Rightarrow> state \<Rightarrow> (string + SubscriptionInfo list) \<times> state" where
  "resolveSubscriptions e token requested st =
     (case listSubscriptions e token st of
        (Inl err, st') \<Rightarrow> (Inl err, st')
      | (Inr all, st') \<Rightarrow>
          if requested = [] then (Inr all, st')
          else (Inr (resolve_loop (new_Map (map (\<lambda>sub. (toLowerCase (sub_id sub), sub)) all))
                       requested [] []), st'))"

section \<open>The message handler\<close>

text \<open>
  \<^verbatim>\<open>s.trim()\<close> and \<^verbatim>\<open>s.split(/[,\n]/)\<close>. The white space and line terminators that
  \<^verbatim>\<open>trim\<close> strips are, below 256: tab, line feed, vertical tab, form feed, carriage
  return, space and the no-break space \<^verbatim>\<open>A0\<close>.
\<close>

definition white_space :: "char \<Rightarrow> bool" where
  "white_space c = (c \<in> set [CHR 0x09, CHR 0x0A, CHR 0x0B, CHR 0x0C, CHR 0x0D, CHR 0x20, CHR 0xA0])"

definition trim :: "string \<Rightarrow> string" where
  "trim s = rev (dropWhile white_space (rev (dropWhile white_space s)))"

fun split :: "(char \<Rightarrow> bool) \<Rightarrow> string \<Rightarrow> string list" where
  "split sep [] = [[]]"
| "split sep (c # cs) =
     (if sep c then [] # split sep cs
      else case split sep cs of
             w # ws \<Rightarrow> (c # w) # ws
           | [] \<Rightarrow> [[c]])"

text \<open>The decimal text of a length, as a template literal prints it.\<close>

fun decimal :: "nat \<Rightarrow> string" where
  "decimal n = (if n < 10 then [''0123456789'' ! n] else decimal (n div 10) @ [''0123456789'' ! (n mod 10)])"

text \<open>
  The loop over the resolved subscriptions. It changes \<^verbatim>\<open>lastResults\<close> only, which it
  takes and returns, and posts two messages for each subscription.
\<close>

fun query_loop ::
  "env \<Rightarrow> string \<Rightarrow> string list \<Rightarrow> SubscriptionInfo list \<Rightarrow> GraphResult list
     \<Rightarrow> GraphResult list \<times> effect list" where
  "query_loop e token cidrs [] results = (results, [])"
| "query_loop e token cidrs (subscription # rest) results =
     (case queryAzureForCidrs e token cidrs [sub_id subscription] of
        Inr hits \<Rightarrow>
          (case query_loop e token cidrs rest (results @ hits) of
             (final, effs) \<Rightarrow>
               (final,
                [PostMessage (SubscriptionStatus (sub_id subscription) Running),
                 PostMessage (SubscriptionStatus (sub_id subscription) (Done (length hits)))] @ effs))
      | Inl msg \<Rightarrow>
          (case query_loop e token cidrs rest results of
             (final, effs) \<Rightarrow>
               (final,
                [PostMessage (SubscriptionStatus (sub_id subscription) Running),
                 PostMessage (SubscriptionStatus (sub_id subscription) (Error msg))] @ effs)))"

definition summaryText :: "string list \<Rightarrow> GraphResult list \<Rightarrow> string" where
  "summaryText cidrs results =
     (if length results \<noteq> 0
      then ''Search completed. Found '' @ decimal (length results) @ '' matching entr'' @
           (if length results = 1 then ''y'' else ''ies'') @ ''.''
      else ''Search completed. No matches found for '' @ join '', '' cidrs @ ''.'')"

text \<open>
  The local constants of the lookup: the token read from the configuration and trimmed,
  the filters split from the text of the request, and the requested subscription ids.
\<close>

definition lookup_token :: "env \<Rightarrow> string" where
  "lookup_token e = trim (case azureGraphToken e of Some t \<Rightarrow> t | None \<Rightarrow> [])"

definition lookup_cidrs :: "string \<Rightarrow> string list" where
  "lookup_cidrs cidr = filter Boolean (map trim (split (\<lambda>c. c = CHR '','' \<or> c = newline) cidr))"

definition lookup_requested :: "string list option \<Rightarrow> string list" where
  "lookup_requested subscriptions =
     (case subscriptions of
        Some ids \<Rightarrow> filter Boolean (map trim ids)
      | None \<Rightarrow> [])"

text \<open>
  The \<^verbatim>\<open>try\<close> block of the lookup: the new state, the effects up to its end or up to the
  exception, and the message of the exception if one was thrown. The source empties
  \<^verbatim>\<open>lastResults\<close> after the initialisation message and lets the loop append to it; here
  the loop starts from the empty list and its result is stored at the end.
\<close>

definition lookup_try ::
  "env \<Rightarrow> string list \<Rightarrow> string list \<Rightarrow> state \<Rightarrow> state \<times> effect list \<times> string option" where
  "lookup_try e cidrs requestedSubscriptions st =
     (if lookup_token e = []
      then (st, [], Some ''Configure an Azure Resource Graph token in the Azure CIDR Analyzer settings first.'')
      else case resolveSubscriptions e (lookup_token e) requestedSubscriptions st of
             (Inl err, st') \<Rightarrow> (st', [], Some err)
           | (Inr subscriptions, st') \<Rightarrow>
               if subscriptions = []
               then (st', [], Some ''No subscriptions available for the current token.'')
               else (case query_loop e (lookup_token e) cidrs subscriptions [] of
                       (results, effs) \<Rightarrow>
                         (st'\<lparr>lastResults := results\<rparr>,
                          [PostMessage (InitSubscriptions subscriptions)] @ effs @
                          [PostMessage (DisplayResults cidrs results (collectColumns results)),
                           PostMessage (ShowInfo (summaryText cidrs results))],
                          None)))"

definition lookupCidr :: "env \<Rightarrow> string \<Rightarrow> string list option \<Rightarrow> state \<Rightarrow> state \<times> effect list" where
  "lookupCidr e cidr subscriptions st =
     (case lookup_try e (lookup_cidrs cidr) (lookup_requested subscriptions) st of
        (st', effs, thrown) \<Rightarrow>
          (st',
           [PostMessage (SetLoading True)] @ effs @
           (case thrown of
              Some msg \<Rightarrow>
                [ShowErrorMessage (''Azure CIDR Analyzer error: '' @ msg), PostMessage (ShowError msg)]
            | None \<Rightarrow> []) @
           [PostMessage (SetLoading False)]))"

definition exportCsv_request :: "state \<Rightarrow> state \<times> effect list" where
  "exportCsv_request st =
     (if length (lastResults st) = 0
      then (st, [ShowWarningMessage ''No results to export yet. Run a search first.'',
                 PostMessage (ShowInfo ''Run a search to export results.'')])
      else (let columns = collectColumns (lastResults st)
            in (st, [ExportCsv ''microsoft-azure-cidr-analyzer'' ''azure-cidr-results''
                       (csvBody (lastResults st) columns) (header columns @ [newline])])))"

definition sendAvailableSubscriptions :: "env \<Rightarrow> state \<Rightarrow> state \<times> effect list" where
  "sendAvailableSubscriptions e st =
     (if lookup_token e = []
      then (st, [PostMessage (ShowError ''Configure an Azure Resource Graph token in the Azure CIDR Analyzer settings to load subscriptions.'')])
      else case listSubscriptions e (lookup_token e) st of
             (Inr subs, st') \<Rightarrow> (st', [PostMessage (SubscriptionOptions subs)])
           | (Inl msg, st') \<Rightarrow>
               (st', [ShowErrorMessage (''Failed to load Azure subscriptions: '' @ msg),
                      PostMessage (ShowError msg)]))"

text \<open>
  The handler of \<^verbatim>\<open>onDidReceiveMessage\<close>. One message is handled from start to end; the
  suspension points of the asynchronous source, at which another message could be taken
  up, are not modelled.
\<close>

fun onDidReceiveMessage :: "env \<Rightarrow> IncomingMessage \<Rightarrow> state \<Rightarrow> state \<times> effect list" where
  "onDidReceiveMessage e RequestSubscriptionsMessage st = sendAvailableSubscriptions e st"
| "onDidReceiveMessage e (LookupMessage cidr subscriptions) st = lookupCidr e cidr subscriptions st"
| "onDidReceiveMessage e ExportMessage st = exportCsv_request st"

section \<open>Reference notions for the properties\<close>

text \<open>
  The distinct lower-cased non-empty filters of a request, in the order of their first
  occurrence, written with the list functions of the library.
\<close>

definition distinct_filters :: "string list \<Rightarrow> string list" where
  "distinct_filters cidrs = rev (remdups (rev (filter (\<lambda>c. c \<noteq> []) (map toLowerCase cidrs))))"

text \<open>
  The same for the two kinds of filters apart: the distinct lower-cased non-empty filters
  without a \<^verbatim>\<open>*\<close>, and the distinct lower-cased filters with a \<^verbatim>\<open>*\<close>, each in the
  order of first occurrence.
\<close>

definition first_exact_tokens :: "string list \<Rightarrow> string list" where
  "first_exact_tokens cidrs =
     rev (remdups (rev (filter (\<lambda>c. c \<noteq> [] \<and> CHR ''*'' \<notin> set c) (map toLowerCase cidrs))))"

definition first_wildcard_patterns :: "string list \<Rightarrow> string list" where
  "first_wildcard_patterns cidrs =
     rev (remdups (rev (filter (\<lambda>c. CHR ''*'' \<in> set c) (map toLowerCase cidrs))))"

text \<open>
  The regular expression of a wildcard filter, character by character: a \<^verbatim>\<open>*\<close> becomes
  \<^verbatim>\<open>.*\<close>, a character of the special class is preceded by a backslash, and any other
  character stands for itself. The predicate of the filter anchors it between \<^verbatim>\<open>^\<close> and
  \<^verbatim>\<open>$\<close> inside a quoted literal in which \<^verbatim>\<open>'\<close> is written \<^verbatim>\<open>\'\<close>.
\<close>

definition regex_of_wildcard :: "string \<Rightarrow> string" where
  "regex_of_wildcard v =
     concat (map (\<lambda>c. if c = CHR ''*'' then ''.*''
                       else if c \<in> set ''.+?^${}()|[]'' \<or> c = backslash then [backslash, c]
                       else [c]) v)"

definition wildcard_predicate :: "string \<Rightarrow> string" where
  "wildcard_predicate v =
     ''prefixStr matches regex '' @ [quote] @ ''^'' @
     replace_char quote [backslash, quote] (regex_of_wildcard v) @ ''$'' @ [quote]"

text \<open>
  The text that \<^verbatim>\<open>toRegex\<close> holds after its first two steps, character by character: the
  placeholder for a \<^verbatim>\<open>*\<close>, and the escaping of the special class.
\<close>

definition enc_char :: "char \<Rightarrow> string" where
  "enc_char c = (if c = CHR ''*'' then placeholder else if regex_special c then [backslash, c] else [c])"

text \<open>
  The text that a cell stands for: nothing when \<^verbatim>\<open>row[col]\<close> is \<^verbatim>\<open>undefined\<close> or
  \<^verbatim>\<open>null\<close>, the JSON text of an object, the string conversion of any other value.
\<close>

definition cell_text :: "GraphResult \<Rightarrow> string \<Rightarrow> string" where
  "cell_text row col =
     (case property row col of
        None \<Rightarrow> []
      | Some JNull \<Rightarrow> []
      | Some (JObject j) \<Rightarrow> j
      | Some v \<Rightarrow> String_of v)"

text \<open>
  A reader of delimited text in the manner of RFC 4180, with the line feed as the record
  separator: fields are separated by commas; a field that begins with a double quote
  runs to the next double quote that is not doubled, and a doubled one inside it stands
  for one double quote; a line feed at the very end closes the last record. The reader
  goes through the text once. Its result for a suffix of the text lists the records of
  that suffix, the first field of the first record being the rest of the field that is
  open at that point.
\<close>

datatype csv_state = RecordStart | FieldStart | Unquoted | Quoted | AfterQuote

definition add_char :: "char \<Rightarrow> string list list option \<Rightarrow> string list list option" where
  "add_char c res = (case res of Some ((f # fs) # rs) \<Rightarrow> Some (((c # f) # fs) # rs) | _ \<Rightarrow> None)"

definition push_field :: "string list list option \<Rightarrow> string list list option" where
  "push_field res = (case res of Some (r # rs) \<Rightarrow> Some (([] # r) # rs) | _ \<Rightarrow> None)"

definition push_record :: "string list list option \<Rightarrow> string list list option" where
  "push_record res = (case res of Some rs \<Rightarrow> Some ([[]] # rs) | None \<Rightarrow> None)"

fun csv_scan :: "csv_state \<Rightarrow> string \<Rightarrow> string list list option" where
  "csv_scan st [] = (case st of RecordStart \<Rightarrow> Some [] | Quoted \<Rightarrow> None | _ \<Rightarrow> Some [[[]]])"
| "csv_scan st (c # cs) =
     (case st of
        Quoted \<Rightarrow>
          if c = dquote then csv_scan AfterQuote cs else add_char c (csv_scan Quoted cs)
      | AfterQuote \<Rightarrow>
          if c = dquote then add_char dquote (csv_scan Quoted cs)
          else if c = CHR '','' then push_field (csv_scan FieldStart cs)
          else if c = newline then push_record (csv_scan RecordStart cs)
          else None
      | Unquoted \<Rightarrow>
          if c = CHR '','' then push_field (csv_scan FieldStart cs)
          else if c = newline then push_record (csv_scan RecordStart cs)
          else if c = dquote then None
          else add_char c (csv_scan Unquoted cs)
      | _ \<Rightarrow>
          if c = dquote then csv_scan Quoted cs
          else if c = CHR '','' then push_field (csv_scan FieldStart cs)
          else if c = newline then push_record (csv_scan RecordStart cs)
          else add_char c (csv_scan Unquoted cs))"

definition csv_parse :: "string \<Rightarrow> string list list option" where
  "csv_parse s = csv_scan RecordStart s"

text \<open>Putting a text in front of the open field of a result of the reader.\<close>

definition prepend :: "string \<Rightarrow> string list list option \<Rightarrow> string list list option" where
  "prepend s res = (case res of Some ((f # fs) # rs) \<Rightarrow> Some (((s @ f) # fs) # rs) | _ \<Rightarrow> None)"

text \<open>
  What the query of one subscription came to, as the status of its closing event and as
  the rows it adds to the result.
\<close>

definition outcome_status :: "string + GraphResult list \<Rightarrow> status" where
  "outcome_status r = (case r of Inr hits \<Rightarrow> Done (length hits) | Inl msg \<Rightarrow> Error msg)"

definition outcome_rows :: "string + GraphResult list \<Rightarrow> GraphResult list" where
  "outcome_rows r = (case r of Inr hits \<Rightarrow> hits | Inl msg \<Rightarrow> [])"

text \<open>The status events among the effects of a handler, in the order they were posted.\<close>

fun statuses :: "effect list \<Rightarrow> (string \<times> status) list" where
  "statuses [] = []"
| "statuses (PostMessage (SubscriptionStatus i s) # effs) = (i, s) # statuses effs"
| "statuses (_ # effs) = statuses effs"

text \<open>
  The requested ids without those that repeat an earlier one up to case, in the order of
  the request; and the entry that stands for a requested id: the catalog entry whose id
  matches it up to case (the last one, should the catalog have several), or else an entry
  with that id and no name.
\<close>

fun first_requests :: "string list \<Rightarrow> string list" where
  "first_requests [] = []"
| "first_requests (raw # rest) =
     raw # first_requests (filter (\<lambda>r. toLowerCase r \<noteq> toLowerCase raw) rest)"

definition entry_for :: "SubscriptionInfo list \<Rightarrow> string \<Rightarrow> SubscriptionInfo" where
  "entry_for catalog raw =
     (case find (\<lambda>sub. toLowerCase (sub_id sub) = toLowerCase raw) (rev catalog) of
        Some sub \<Rightarrow> sub
      | None \<Rightarrow> \<lparr>sub_id = raw, sub_name = None\<rparr>)"

section \<open>An example environment\<close>

text \<open>
  A token is configured; the catalog has the subscriptions \<^verbatim>\<open>sub-1\<close> (named \<^verbatim>\<open>Prod\<close>) and
  \<^verbatim>\<open>sub-2\<close> (without a name); a query of \<^verbatim>\<open>sub-1\<close> returns three rows, and a query of any
  other subscription fails with a network error.
\<close>

definition example_rows :: "GraphResult list" where
  "example_rows =
     [[(''name'', JString ''vnet-a''), (''prefixStr'', JString ''10.0.0.0/16'')],
      [(''name'', JString ''vnet-b''), (''prefixStr'', JString ''10.1.0.0/16'')],
      [(''name'', JString ''snet'')]]"

definition example_catalog :: "SubscriptionInfo list" where
  "example_catalog =
     [\<lparr>sub_id = ''sub-1'', sub_name = Some ''Prod''\<rparr>, \<lparr>sub_id = ''sub-2'', sub_name = None\<rparr>]"

definition example_env :: env where
  "example_env =
     \<lparr>azureGraphToken = Some '' token '',
      subscriptions_api = (\<lambda>token. Ok (Some
        [\<lparr>subscriptionId = Some ''sub-1'', displayName = Some ''Prod''\<rparr>,
         \<lparr>subscriptionId = Some ''sub-2'', displayName = None\<rparr>])),
      resource_graph_api = (\<lambda>token subscriptions query.
        if subscriptions = [''sub-1''] then Ok (Some example_rows) else Threw ''network error'')\<rparr>"

definition example_cached :: state where
  "example_cached =
     \<lparr>lastResults = [], cachedSubscriptions = Some example_catalog, cachedToken = Some ''token''\<rparr>"

section \<open>Facts about the string primitives\<close>

lemma toLowerCase_Nil_iff: "toLowerCase s = [] \<longleftrightarrow> s = []"
  by (simp add: toLowerCase_def)

lemma set_Set_add: "set (Set_add s x) = insert x (set s)"
  by (auto simp: Set_add_def)

lemma distinct_Set_add: "distinct s \<Longrightarrow> distinct (Set_add s x)"
  by (simp add: Set_add_def)

lemma set_Set_add_all: "set (Set_add_all s xs) = set s \<union> set xs"
  unfolding Set_add_all_def by (induction xs arbitrary: s) (auto simp: set_Set_add)

lemma distinct_Set_add_all: "distinct s \<Longrightarrow> distinct (Set_add_all s xs)"
  unfolding Set_add_all_def by (induction xs arbitrary: s) (auto simp: distinct_Set_add)

lemma Set_add_all_snoc: "Set_add_all s (xs @ [x]) = Set_add (Set_add_all s xs) x"
  by (simp add: Set_add_all_def)

lemma set_Array_from_Set: "set (Array_from_Set xs) = set xs"
  by (simp add: Array_from_Set_def set_Set_add_all)

lemma distinct_Array_from_Set: "distinct (Array_from_Set xs)"
  by (simp add: Array_from_Set_def distinct_Set_add_all)

lemma Array_from_Set_first_occurrences: "Array_from_Set xs = rev (remdups (rev xs))"
proof (induction xs rule: rev_induct)
  case Nil
  show ?case by (simp add: Array_from_Set_def Set_add_all_def)
next
  case (snoc x xs)
  have "Array_from_Set (xs @ [x]) = Set_add (Array_from_Set xs) x"
    by (simp add: Array_from_Set_def Set_add_all_snoc)
  also have "\<dots> = (if x \<in> set xs then rev (remdups (rev xs)) else rev (remdups (rev xs)) @ [x])"
    by (simp add: Set_add_def set_Array_from_Set snoc.IH [symmetric])
  also have "\<dots> = rev (remdups (rev (xs @ [x])))" by simp
  finally show ?case .
qed

lemma set_lower: "set (lower cidrs) = {toLowerCase c | c. c \<in> set cidrs \<and> c \<noteq> []}"
  by (auto simp: lower_def set_Array_from_Set Boolean_def toLowerCase_Nil_iff)

lemma distinct_lower: "distinct (lower cidrs)"
  by (simp add: lower_def distinct_Array_from_Set)

lemma lower_Nil_iff: "lower cidrs = [] \<longleftrightarrow> (\<forall>c \<in> set cidrs. c = [])"
proof -
  have "lower cidrs = [] \<longleftrightarrow> set (lower cidrs) = {}" by simp
  also have "\<dots> \<longleftrightarrow> (\<forall>c \<in> set cidrs. c = [])" unfolding set_lower by blast
  finally show ?thesis .
qed

lemma toLowerCase_char_star: "toLowerCase_char c = CHR ''*'' \<longleftrightarrow> c = CHR ''*''"
  by (auto simp: toLowerCase_char_def upper_case_letters_def lower_case_letters_def)

lemma star_in_toLowerCase: "CHR ''*'' \<in> set (toLowerCase s) \<longleftrightarrow> CHR ''*'' \<in> set s"
proof -
  have "CHR ''*'' \<in> set (toLowerCase s) \<longleftrightarrow> (\<exists>c \<in> set s. CHR ''*'' = toLowerCase_char c)"
    by (simp add: toLowerCase_def image_iff)
  also have "\<dots> \<longleftrightarrow> (\<exists>c \<in> set s. c = CHR ''*'')"
    by (metis toLowerCase_char_star)
  finally show ?thesis by simp
qed

lemma toLowerCase_char_no_W: "toLowerCase_char c \<noteq> CHR ''W''"
  by (simp add: toLowerCase_char_def upper_case_letters_def lower_case_letters_def)

lemma toLowerCase_no_W: "CHR ''W'' \<notin> set (toLowerCase s)"
proof
  assume "CHR ''W'' \<in> set (toLowerCase s)"
  then obtain c where "toLowerCase_char c = CHR ''W''" by (auto simp: toLowerCase_def)
  then show False by (simp add: toLowerCase_char_no_W)
qed

section \<open>Properties of the query builder\<close>

text \<open>
  C6. For the empty filter list, and for a list of empty strings only, the filter clause
  is the empty string, and the query is the fixed text that scans the four resource
  types, expands their prefixes and projects the seven columns, with no
  \<^verbatim>\<open>| where\<close> line between the \<^verbatim>\<open>prefixStr\<close> line and the projection.
\<close>

theorem buildResourceGraphQuery_no_filter:
  assumes "\<forall>c \<in> set cidrs. c = []"
  shows "filterClause cidrs = [] \<and>
         buildResourceGraphQuery cidrs = join [newline]
           [''Resources'',
            ''| where type in~ ('microsoft.network/virtualnetworks', 'microsoft.network/virtualnetworks/subnets', 'microsoft.network/publicipprefixes', 'microsoft.network/ipgroups')'',
            ''| extend prefixes = case('',
            ''    type =~ 'microsoft.network/virtualnetworks', properties.addressSpace.addressPrefixes,'',
            ''    type =~ 'microsoft.network/virtualnetworks/subnets', coalesce(properties.addressPrefixes, pack_array(properties.addressPrefix)),'',
            ''    type =~ 'microsoft.network/publicipprefixes', pack_array(properties.ipPrefix),'',
            ''    type =~ 'microsoft.network/ipgroups', properties.ipAddresses,'',
            ''    dynamic([])'',
            ''  )'',
            ''| mv-expand prefix = prefixes'',
            ''| where isnotempty(prefix)'',
            ''| extend prefixStr = tolower(tostring(prefix))'',
            ''| project name, type, location, resourceGroup, subscriptionId, prefixStr, id'']"
proof -
  from assms have "lower cidrs = []" by (simp add: lower_Nil_iff)
  then have fc: "filterClause cidrs = []"
    by (simp add: filterClause_def clauses_def exactMatches_def wildcardMatches_def)
  show ?thesis
    unfolding buildResourceGraphQuery_def fc query_head_def query_tail_def by simp
qed

theorem buildResourceGraphQuery_no_filter_witness:
  "filterClause [] = [] \<and> filterClause [[], []] = [] \<and>
   buildResourceGraphQuery [[], []] = buildResourceGraphQuery []"
proof -
  have h1: "\<forall>c \<in> set ([] :: string list). c = []" by simp
  have h2: "\<forall>c \<in> set [[], [] :: string]. c = []" by simp
  note i1 = buildResourceGraphQuery_no_filter [OF h1]
  note i2 = buildResourceGraphQuery_no_filter [OF h2]
  from i1 i2 have "buildResourceGraphQuery [[], []] = buildResourceGraphQuery []" by simp
  with i1 i2 show ?thesis by blast
qed

lemma exactMatches_no_star:
  assumes "\<forall>c \<in> set cidrs. CHR ''*'' \<notin> set c"
  shows "exactMatches cidrs = lower cidrs" and "wildcardMatches cidrs = []"
proof -
  have "\<forall>c \<in> set (lower cidrs). CHR ''*'' \<notin> set c"
    using assms by (auto simp: set_lower star_in_toLowerCase)
  then show "exactMatches cidrs = lower cidrs" and "wildcardMatches cidrs = []"
    by (auto simp: exactMatches_def wildcardMatches_def includes_char_def filter_empty_conv)
qed

lemma replace_quote_not_quote_first:
  "replace_char quote [backslash, quote] s \<noteq> quote # r"
  by (cases s) (auto simp: replace_char_def)

lemma replace_quote_inj:
  "replace_char quote [backslash, quote] s = replace_char quote [backslash, quote] t \<Longrightarrow> s = t"
proof (induction s arbitrary: t)
  case Nil
  then show ?case by (cases t) (auto simp: replace_char_def split: if_splits)
next
  case (Cons a s)
  show ?case
  proof (cases t)
    case Nil
    with Cons.prems show ?thesis by (auto simp: replace_char_def split: if_splits)
  next
    case (Cons b t')
    have unfold: "\<And>c u. replace_char quote [backslash, quote] (c # u) =
        (if c = quote then [backslash, quote] else [c]) @ replace_char quote [backslash, quote] u"
      by (simp add: replace_char_def)
    have no: "\<And>u r. quote # r \<noteq> replace_char quote [backslash, quote] u"
      using replace_quote_not_quote_first by metis
    from Cons.prems Cons have "a = b \<and> replace_char quote [backslash, quote] s = replace_char quote [backslash, quote] t'"
      using replace_quote_not_quote_first
      by (auto simp: unfold no split: if_splits)
    with Cons.IH Cons show ?thesis by simp
  qed
qed

lemma literal_inj: "inj (\<lambda>c. [quote] @ replace_char quote [backslash, quote] c @ [quote])"
  by (rule injI) (auto dest: replace_quote_inj)

lemma query_text_with_clause:
  "buildResourceGraphQuery cidrs = join [newline]
     [''Resources'',
      ''| where type in~ ('microsoft.network/virtualnetworks', 'microsoft.network/virtualnetworks/subnets', 'microsoft.network/publicipprefixes', 'microsoft.network/ipgroups')'',
      ''| extend prefixes = case('',
      ''    type =~ 'microsoft.network/virtualnetworks', properties.addressSpace.addressPrefixes,'',
      ''    type =~ 'microsoft.network/virtualnetworks/subnets', coalesce(properties.addressPrefixes, pack_array(properties.addressPrefix)),'',
      ''    type =~ 'microsoft.network/publicipprefixes', pack_array(properties.ipPrefix),'',
      ''    type =~ 'microsoft.network/ipgroups', properties.ipAddresses,'',
      ''    dynamic([])'',
      ''  )'',
      ''| mv-expand prefix = prefixes'',
      ''| where isnotempty(prefix)'',
      ''| extend prefixStr = tolower(tostring(prefix))'' @ filterClause cidrs,
      ''| project name, type, location, resourceGroup, subscriptionId, prefixStr, id'']"
  unfolding buildResourceGraphQuery_def query_head_def query_tail_def by simp

text \<open>
  C5. When no filter contains \<^verbatim>\<open>*\<close> and some filter is not empty, the filter clause is
  the single membership predicate \<^verbatim>\<open>prefixStr in~ (...)\<close>. Its list holds the quoted
  literals of the lower-cased non-empty filters, each of them once, whatever the casing
  and the repetitions of the input. The query returned is the fixed text with that one
  \<^verbatim>\<open>| where\<close> line between the \<^verbatim>\<open>prefixStr\<close> line and the projection.
\<close>

theorem exact_filters_single_membership:
  assumes "\<forall>c \<in> set cidrs. CHR ''*'' \<notin> set c" and "\<exists>c \<in> set cidrs. c \<noteq> []"
  shows "filterClause cidrs =
           [newline] @ ''| where prefixStr in~ ('' @
             join '', '' (map (\<lambda>c. [quote] @ replace_char quote [backslash, quote] c @ [quote]) (lower cidrs)) @ '')''
         \<and> set (lower cidrs) = {toLowerCase c | c. c \<in> set cidrs \<and> c \<noteq> []}
         \<and> distinct (lower cidrs)
         \<and> distinct (map (\<lambda>c. [quote] @ replace_char quote [backslash, quote] c @ [quote]) (lower cidrs))
         \<and> buildResourceGraphQuery cidrs = join [newline]
             [''Resources'',
              ''| where type in~ ('microsoft.network/virtualnetworks', 'microsoft.network/virtualnetworks/subnets', 'microsoft.network/publicipprefixes', 'microsoft.network/ipgroups')'',
              ''| extend prefixes = case('',
              ''    type =~ 'microsoft.network/virtualnetworks', properties.addressSpace.addressPrefixes,'',
              ''    type =~ 'microsoft.network/virtualnetworks/subnets', coalesce(properties.addressPrefixes, pack_array(properties.addressPrefix)),'',
              ''    type =~ 'microsoft.network/publicipprefixes', pack_array(properties.ipPrefix),'',
              ''    type =~ 'microsoft.network/ipgroups', properties.ipAddresses,'',
              ''    dynamic([])'',
              ''  )'',
              ''| mv-expand prefix = prefixes'',
              ''| where isnotempty(prefix)'',
              ''| extend prefixStr = tolower(tostring(prefix))'',
              ''| where prefixStr in~ ('' @
                 join '', '' (map (\<lambda>c. [quote] @ replace_char quote [backslash, quote] c @ [quote]) (lower cidrs)) @ '')'',
              ''| project name, type, location, resourceGroup, subscriptionId, prefixStr, id'']"
proof -
  from assms(2) have ne: "lower cidrs \<noteq> []" by (auto simp: lower_Nil_iff)
  have "clauses cidrs = [''prefixStr in~ ('' @
             join '', '' (map (\<lambda>c. [quote] @ replace_char quote [backslash, quote] c @ [quote]) (lower cidrs)) @ '')'']"
    using ne by (simp add: clauses_def exactMatches_no_star [OF assms(1)])
  then have fc: "filterClause cidrs =
           [newline] @ ''| where prefixStr in~ ('' @
             join '', '' (map (\<lambda>c. [quote] @ replace_char quote [backslash, quote] c @ [quote]) (lower cidrs)) @ '')''"
    by (simp add: filterClause_def)
  have di: "distinct (map (\<lambda>c. [quote] @ replace_char quote [backslash, quote] c @ [quote]) (lower cidrs))"
    using literal_inj distinct_lower by (simp add: distinct_map inj_on_def inj_def)
  have qt: "buildResourceGraphQuery cidrs = join [newline]
             [''Resources'',
              ''| where type in~ ('microsoft.network/virtualnetworks', 'microsoft.network/virtualnetworks/subnets', 'microsoft.network/publicipprefixes', 'microsoft.network/ipgroups')'',
              ''| extend prefixes = case('',
              ''    type =~ 'microsoft.network/virtualnetworks', properties.addressSpace.addressPrefixes,'',
              ''    type =~ 'microsoft.network/virtualnetworks/subnets', coalesce(properties.addressPrefixes, pack_array(properties.addressPrefix)),'',
              ''    type =~ 'microsoft.network/publicipprefixes', pack_array(properties.ipPrefix),'',
              ''    type =~ 'microsoft.network/ipgroups', properties.ipAddresses,'',
              ''    dynamic([])'',
              ''  )'',
              ''| mv-expand prefix = prefixes'',
              ''| where isnotempty(prefix)'',
              ''| extend prefixStr = tolower(tostring(prefix))'',
              ''| where prefixStr in~ ('' @
                 join '', '' (map (\<lambda>c. [quote] @ replace_char quote [backslash, quote] c @ [quote]) (lower cidrs)) @ '')'',
              ''| project name, type, location, resourceGroup, subscriptionId, prefixStr, id'']"
    unfolding query_text_with_clause fc by simp
  from fc di qt show ?thesis by (simp add: set_lower distinct_lower)
qed

theorem exact_filters_single_membership_witness:
  "filterClause [''10.0.0.0/24'', ''AbC'', [], ''aBc'', ''10.0.0.0/24''] =
     [newline] @ ''| where prefixStr in~ ('10.0.0.0/24', 'abc')''"
proof -
  let ?cidrs = "[''10.0.0.0/24'', ''AbC'', [], ''aBc'', ''10.0.0.0/24'']"
  have h1: "\<forall>c \<in> set ?cidrs. CHR ''*'' \<notin> set c" by simp
  have h2: "\<exists>c \<in> set ?cidrs. c \<noteq> []" by simp
  have lo: "lower ?cidrs = [''10.0.0.0/24'', ''abc'']"
    by (simp add: lower_def Array_from_Set_def Set_add_all_def Set_add_def Boolean_def
        toLowerCase_def toLowerCase_char_def upper_case_letters_def lower_case_letters_def)
  from exact_filters_single_membership [OF h1 h2]
  have "filterClause ?cidrs =
      [newline] @ ''| where prefixStr in~ ('' @
        join '', '' (map (\<lambda>c. [quote] @ replace_char quote [backslash, quote] c @ [quote]) (lower ?cidrs)) @ '')''"
    by blast
  then have "filterClause ?cidrs = [newline] @ ''| where prefixStr in~ ('10.0.0.0/24', 'abc')''"
    unfolding lo by (simp add: replace_char_def)
  then show ?thesis .
qed

lemma lower_distinct_filters: "lower cidrs = distinct_filters cidrs"
proof -
  have "filter Boolean (map toLowerCase cidrs) = filter (\<lambda>c. c \<noteq> []) (map toLowerCase cidrs)"
    by (rule filter_cong) (simp_all add: Boolean_def)
  then show ?thesis
    by (simp add: lower_def distinct_filters_def Array_from_Set_first_occurrences)
qed

lemma set_lower_map: "set (lower cidrs) = set (map toLowerCase cidrs) - {[]}"
  by (auto simp: set_lower toLowerCase_Nil_iff)

lemma query_eq_iff:
  "buildResourceGraphQuery a = buildResourceGraphQuery b \<longleftrightarrow> filterClause a = filterClause b"
  by (simp add: buildResourceGraphQuery_def)

text \<open>
  C1, as stated, fails: the two orders of the filters \<^verbatim>\<open>a\<close> and \<^verbatim>\<open>b\<close> are the same set
  and give two different query texts, since a \<^verbatim>\<open>Set\<close> lists its members in insertion
  order.
\<close>

theorem query_order_counterexample:
  "set (map toLowerCase [''a'', ''b'']) = set (map toLowerCase [''b'', ''a'']) \<and>
   buildResourceGraphQuery [''a'', ''b''] \<noteq> buildResourceGraphQuery [''b'', ''a'']"
  by (simp add: query_eq_iff filterClause_def clauses_def exactMatches_def wildcardMatches_def
      lower_def Array_from_Set_def Set_add_all_def Set_add_def Boolean_def includes_char_def
      toLowerCase_def toLowerCase_char_def upper_case_letters_def lower_case_letters_def replace_char_def insert_commute)

lemma exactMatches_first: "exactMatches cidrs = first_exact_tokens cidrs"
proof -
  have "exactMatches cidrs =
      filter (\<lambda>c. CHR ''*'' \<notin> set c) (rev (remdups (rev (filter (\<lambda>c. c \<noteq> []) (map toLowerCase cidrs)))))"
    by (simp add: exactMatches_def includes_char_def lower_distinct_filters distinct_filters_def)
  also have "\<dots> = rev (remdups (rev (filter (\<lambda>c. CHR ''*'' \<notin> set c)
      (filter (\<lambda>c. c \<noteq> []) (map toLowerCase cidrs)))))"
    by (simp only: rev_filter remdups_filter)
  finally show ?thesis by (simp add: first_exact_tokens_def)
qed

lemma wildcardMatches_first: "wildcardMatches cidrs = first_wildcard_patterns cidrs"
proof -
  have "wildcardMatches cidrs =
      filter (\<lambda>c. CHR ''*'' \<in> set c) (rev (remdups (rev (filter (\<lambda>c. c \<noteq> []) (map toLowerCase cidrs)))))"
    by (simp add: wildcardMatches_def includes_char_def lower_distinct_filters distinct_filters_def)
  also have "\<dots> = rev (remdups (rev (filter (\<lambda>c. CHR ''*'' \<in> set c)
      (filter (\<lambda>c. c \<noteq> []) (map toLowerCase cidrs)))))"
    by (simp only: rev_filter remdups_filter)
  also have "filter (\<lambda>c. CHR ''*'' \<in> set c) (filter (\<lambda>c. c \<noteq> []) (map toLowerCase cidrs)) =
      filter (\<lambda>c. CHR ''*'' \<in> set c) (map toLowerCase cidrs)"
    by (auto intro: filter_cong)
  finally show ?thesis by (simp add: first_wildcard_patterns_def)
qed

text \<open>
  C1, amended. The query text is determined by two lists: the distinct lower-cased
  non-empty filters without a \<^verbatim>\<open>*\<close> in the order of their first occurrence, and the
  distinct lower-cased filters with a \<^verbatim>\<open>*\<close> in the order of their first occurrence. Two
  requests with the same two lists get the same text, whatever the casing, the
  repetitions, the empty strings and the way the two kinds are interleaved. Two requests
  with the same set of lower-cased filters have the same exact tokens and the same
  wildcard patterns, as sets and in number.
\<close>

theorem query_determined_by_first_occurrences:
  "(first_exact_tokens a = first_exact_tokens b \<and>
    first_wildcard_patterns a = first_wildcard_patterns b \<longrightarrow>
      buildResourceGraphQuery a = buildResourceGraphQuery b) \<and>
   (set (map toLowerCase a) = set (map toLowerCase b) \<longrightarrow>
      set (first_exact_tokens a) = set (first_exact_tokens b) \<and>
      set (first_wildcard_patterns a) = set (first_wildcard_patterns b) \<and>
      length (first_exact_tokens a) = length (first_exact_tokens b) \<and>
      length (first_wildcard_patterns a) = length (first_wildcard_patterns b))"
proof (intro conjI impI)
  assume "first_exact_tokens a = first_exact_tokens b \<and>
    first_wildcard_patterns a = first_wildcard_patterns b"
  then have "exactMatches a = exactMatches b" and "wildcardMatches a = wildcardMatches b"
    by (simp_all add: exactMatches_first wildcardMatches_first)
  then show "buildResourceGraphQuery a = buildResourceGraphQuery b"
    by (simp add: buildResourceGraphQuery_def filterClause_def clauses_def)
next
  assume "set (map toLowerCase a) = set (map toLowerCase b)"
  then have eq: "set (lower a) = set (lower b)" by (simp only: set_lower_map)
  then have ex: "set (exactMatches a) = set (exactMatches b)"
    by (simp add: exactMatches_def)
  then show "set (first_exact_tokens a) = set (first_exact_tokens b)"
    by (simp only: exactMatches_first)
  from eq have wi: "set (wildcardMatches a) = set (wildcardMatches b)"
    by (simp add: wildcardMatches_def)
  then show "set (first_wildcard_patterns a) = set (first_wildcard_patterns b)"
    by (simp only: wildcardMatches_first)
  have "distinct (exactMatches a)" "distinct (exactMatches b)"
    by (simp_all add: exactMatches_def distinct_lower)
  with ex have "length (exactMatches a) = length (exactMatches b)"
    by (metis distinct_card)
  then show "length (first_exact_tokens a) = length (first_exact_tokens b)"
    by (simp only: exactMatches_first)
  have "distinct (wildcardMatches a)" "distinct (wildcardMatches b)"
    by (simp_all add: wildcardMatches_def distinct_lower)
  with wi have "length (wildcardMatches a) = length (wildcardMatches b)"
    by (metis distinct_card)
  then show "length (first_wildcard_patterns a) = length (first_wildcard_patterns b)"
    by (simp only: wildcardMatches_first)
qed

theorem query_determined_by_first_occurrences_witness:
  "first_exact_tokens [''A'', [], ''b*'', ''a''] = first_exact_tokens [''B*'', ''a''] \<and>
   first_wildcard_patterns [''A'', [], ''b*'', ''a''] = first_wildcard_patterns [''B*'', ''a''] \<and>
   buildResourceGraphQuery [''A'', [], ''b*'', ''a''] = buildResourceGraphQuery [''B*'', ''a''] \<and>
   set (map toLowerCase [''a'', ''C'', ''B*'']) = set (map toLowerCase [''c'', ''b*'', ''a'']) \<and>
   set (first_exact_tokens [''a'', ''C'', ''B*'']) = set (first_exact_tokens [''c'', ''b*'', ''a'']) \<and>
   length (first_wildcard_patterns [''a'', ''C'', ''B*'']) = length (first_wildcard_patterns [''c'', ''b*'', ''a''])"
proof -
  have lc: "toLowerCase ''A'' = ''a''" "toLowerCase ''a'' = ''a''" "toLowerCase ''b*'' = ''b*''"
    "toLowerCase ''B*'' = ''b*''" "toLowerCase ''C'' = ''c''" "toLowerCase ''c'' = ''c''"
    "toLowerCase [] = []"
    by (simp_all add: toLowerCase_def toLowerCase_char_def upper_case_letters_def lower_case_letters_def)
  have h1: "first_exact_tokens [''A'', [], ''b*'', ''a''] = first_exact_tokens [''B*'', ''a''] \<and>
      first_wildcard_patterns [''A'', [], ''b*'', ''a''] = first_wildcard_patterns [''B*'', ''a'']"
    by (simp add: first_exact_tokens_def first_wildcard_patterns_def lc)
  have h2: "set (map toLowerCase [''a'', ''C'', ''B*'']) = set (map toLowerCase [''c'', ''b*'', ''a''])"
    by (auto simp: lc)
  from query_determined_by_first_occurrences [of "[''A'', [], ''b*'', ''a'']" "[''B*'', ''a'']"] h1
  have c1: "buildResourceGraphQuery [''A'', [], ''b*'', ''a''] = buildResourceGraphQuery [''B*'', ''a'']"
    by blast
  from query_determined_by_first_occurrences [of "[''a'', ''C'', ''B*'']" "[''c'', ''b*'', ''a'']"] h2
  have c2: "set (first_exact_tokens [''a'', ''C'', ''B*'']) = set (first_exact_tokens [''c'', ''b*'', ''a'']) \<and>
      length (first_wildcard_patterns [''a'', ''C'', ''B*'']) = length (first_wildcard_patterns [''c'', ''b*'', ''a''])"
    by blast
  from h1 h2 c1 c2 show ?thesis by blast
qed

section \<open>The columns of a result\<close>

lemma set_fold_Set_add: "set (fold (\<lambda>key cols. Set_add cols key) ks s) = set s \<union> set ks"
  by (induction ks arbitrary: s) (auto simp: set_Set_add)

lemma distinct_fold_Set_add: "distinct s \<Longrightarrow> distinct (fold (\<lambda>key cols. Set_add cols key) ks s)"
  by (induction ks arbitrary: s) (auto simp: distinct_Set_add)

lemma set_fold_rows:
  "set (fold (\<lambda>row cols. fold (\<lambda>key cols. Set_add cols key) (Object_keys row) cols) rows s) =
     set s \<union> (\<Union>row \<in> set rows. set (Object_keys row))"
  by (induction rows arbitrary: s) (auto simp: set_fold_Set_add)

lemma distinct_fold_rows:
  "distinct s \<Longrightarrow>
   distinct (fold (\<lambda>row cols. fold (\<lambda>key cols. Set_add cols key) (Object_keys row) cols) rows s)"
  by (induction rows arbitrary: s) (auto simp: distinct_fold_Set_add)

text \<open>
  C7. The columns of a list of rows are the union of the keys of the rows, without
  duplicates and in ascending lexicographic order; the rows \<^verbatim>\<open>{a:1,b:2}\<close> and
  \<^verbatim>\<open>{b:3,c:4}\<close> have the columns \<^verbatim>\<open>a\<close>, \<^verbatim>\<open>b\<close>, \<^verbatim>\<open>c\<close>. The result is a function of the rows
  alone.
\<close>

theorem collectColumns_sorted_union:
  "set (collectColumns rows) = (\<Union>row \<in> set rows. set (Object_keys row)) \<and>
   distinct (collectColumns rows) \<and>
   sorted (collectColumns rows) \<and>
   collectColumns [[(''a'', JNumber ''1''), (''b'', JNumber ''2'')],
                   [(''b'', JNumber ''3''), (''c'', JNumber ''4'')]] = [''a'', ''b'', ''c'']"
proof (intro conjI)
  show "set (collectColumns rows) = (\<Union>row \<in> set rows. set (Object_keys row))"
    by (simp add: collectColumns_def set_fold_rows)
  show "distinct (collectColumns rows)"
    by (simp add: collectColumns_def distinct_fold_rows)
  show "sorted (collectColumns rows)"
    by (simp add: collectColumns_def)
  show "collectColumns [[(''a'', JNumber ''1''), (''b'', JNumber ''2'')],
                   [(''b'', JNumber ''3''), (''c'', JNumber ''4'')]] = [''a'', ''b'', ''c'']"
    by (simp add: collectColumns_def Object_keys_def Set_add_def)
qed

section \<open>The wildcard predicates\<close>

lemma escaped_placeholder:
  "concat (map (\<lambda>x. if regex_special x then [backslash, x] else [x]) (replace_char (CHR ''*'') placeholder v))
     = concat (map enc_char v)"
  by (induction v) (auto simp: replace_char_def enc_char_def placeholder_def regex_special_def)

lemma replace_all_placeholder:
  "replace_all placeholder ''.*'' (placeholder @ rest) = ''.*'' @ replace_all placeholder ''.*'' rest"
  by (simp add: placeholder_def)

lemma replace_all_other:
  "c \<noteq> CHR ''_'' \<Longrightarrow> replace_all placeholder ''.*'' (c # rest) = c # replace_all placeholder ''.*'' rest"
  by (auto simp: placeholder_def)

lemma enc_char_cases:
  "enc_char (CHR ''*'') = placeholder"
  "c \<noteq> CHR ''*'' \<Longrightarrow> regex_special c \<Longrightarrow> enc_char c = [backslash, c]"
  "c \<noteq> CHR ''*'' \<Longrightarrow> \<not> regex_special c \<Longrightarrow> enc_char c = [c]"
  by (simp_all add: enc_char_def)

lemma enc_no_placeholder_prefix:
  assumes "CHR ''W'' \<notin> set cs"
  shows "take (length placeholder) (CHR ''_'' # concat (map enc_char cs)) \<noteq> placeholder"
proof (cases cs)
  case Nil
  then show ?thesis by (simp add: placeholder_def)
next
  case (Cons d ds)
  show ?thesis
  proof (cases ds)
    case Nil
    with Cons show ?thesis by (auto simp: placeholder_def enc_char_def)
  next
    case (Cons e es)
    with \<open>cs = d # ds\<close> assms show ?thesis
      by (auto simp: placeholder_def enc_char_def)
  qed
qed

lemma replace_all_underscore:
  assumes "CHR ''W'' \<notin> set cs"
  shows "replace_all placeholder ''.*'' (CHR ''_'' # concat (map enc_char cs)) =
         CHR ''_'' # replace_all placeholder ''.*'' (concat (map enc_char cs))"
  using enc_no_placeholder_prefix [OF assms] by (simp only: replace_all.simps if_False)

lemma regexBody_direct:
  "CHR ''W'' \<notin> set v \<Longrightarrow>
   replace_all placeholder ''.*'' (concat (map enc_char v)) = regex_of_wildcard v"
proof (induction v)
  case Nil
  show ?case by (simp add: regex_of_wildcard_def)
next
  case (Cons c cs)
  then have IH: "replace_all placeholder ''.*'' (concat (map enc_char cs)) = regex_of_wildcard cs"
    and nW: "CHR ''W'' \<notin> set cs" by simp_all
  have step: "regex_of_wildcard (c # cs) =
      (if c = CHR ''*'' then ''.*'' else if regex_special c then [backslash, c] else [c]) @ regex_of_wildcard cs"
    by (simp add: regex_of_wildcard_def regex_special_def)
  have e: "concat (map enc_char (c # cs)) = enc_char c @ concat (map enc_char cs)" by simp
  consider (star) "c = CHR ''*''" | (special) "c \<noteq> CHR ''*''" "regex_special c"
    | (underscore) "c = CHR ''_''" | (plain) "c \<noteq> CHR ''*''" "\<not> regex_special c" "c \<noteq> CHR ''_''"
    by blast
  then show ?case
  proof cases
    case star
    have "replace_all placeholder ''.*'' (placeholder @ concat (map enc_char cs)) =
          ''.*'' @ regex_of_wildcard cs"
      unfolding replace_all_placeholder IH ..
    then show ?thesis
      unfolding e step using star by (simp add: enc_char_cases(1))
  next
    case special
    then have c: "c \<noteq> CHR ''_''" by (auto simp: regex_special_def)
    have "replace_all placeholder ''.*'' ([backslash, c] @ concat (map enc_char cs)) =
          [backslash, c] @ regex_of_wildcard cs"
      using c IH by (simp add: replace_all_other del: replace_all.simps)
    then show ?thesis
      unfolding e step enc_char_cases(2) [OF special] using special by simp
  next
    case underscore
    then have ec: "enc_char c = [c]" by (simp add: enc_char_def regex_special_def)
    show ?thesis
      unfolding e step ec using replace_all_underscore [OF nW] IH underscore
      by (simp add: regex_special_def del: replace_all.simps)
  next
    case plain
    have "replace_all placeholder ''.*'' ([c] @ concat (map enc_char cs)) = [c] @ regex_of_wildcard cs"
      using plain(3) IH by (simp add: replace_all_other del: replace_all.simps)
    then show ?thesis
      unfolding e step enc_char_cases(3) [OF plain(1,2)] using plain by simp
  qed
qed

lemma replace_char_append:
  "replace_char c r (a @ b) = replace_char c r a @ replace_char c r b"
  by (simp add: replace_char_def)

lemma toRegex_direct:
  assumes "CHR ''W'' \<notin> set v"
  shows "''prefixStr matches regex '' @ toRegex v = wildcard_predicate v"
proof -
  have "toRegex v = [quote] @ replace_char quote [backslash, quote] (''^'' @ regex_of_wildcard v @ ''$'') @ [quote]"
    unfolding toRegex_def Let_def escaped_placeholder regexBody_direct [OF assms] by simp
  also have "replace_char quote [backslash, quote] (''^'' @ regex_of_wildcard v @ ''$'') =
             ''^'' @ replace_char quote [backslash, quote] (regex_of_wildcard v) @ ''$''"
    unfolding replace_char_append by (simp add: replace_char_def)
  finally show ?thesis by (simp add: wildcard_predicate_def)
qed

lemma lower_no_W: "v \<in> set (lower cidrs) \<Longrightarrow> CHR ''W'' \<notin> set v"
  by (auto simp: set_lower toLowerCase_no_W)

lemma wildcard_conditions:
  "map (\<lambda>v. ''prefixStr matches regex '' @ toRegex v) (wildcardMatches cidrs) =
   map wildcard_predicate (wildcardMatches cidrs)"
  by (rule map_cong) (auto simp: wildcardMatches_def lower_no_W toRegex_direct simp del: append.simps)

text \<open>
  C3. A filter with a \<^verbatim>\<open>*\<close> is, lower-cased, one of the wildcard filters, and its predicate
  is \<^verbatim>\<open>prefixStr matches regex\<close> followed by the quoted pattern that begins with \<^verbatim>\<open>^\<close>, ends
  with \<^verbatim>\<open>$\<close>, has \<^verbatim>\<open>.*\<close> for each \<^verbatim>\<open>*\<close> and a backslash before each special character of
  the lower-cased filter. The predicates of all wildcard filters, joined by \<^verbatim>\<open>or\<close>, are the
  last clause of the filter clause, and the query returned is the fixed text with the
  line \<^verbatim>\<open>| where\<close> of the clauses, joined by \<^verbatim>\<open>or\<close>, before the projection.
\<close>

theorem wildcard_predicates_anchored:
  assumes "f \<in> set cidrs" and "CHR ''*'' \<in> set f"
  shows "toLowerCase f \<in> set (wildcardMatches cidrs) \<and>
         ''prefixStr matches regex '' @ toRegex (toLowerCase f) = wildcard_predicate (toLowerCase f) \<and>
         last (clauses cidrs) = join '' or '' (map wildcard_predicate (wildcardMatches cidrs)) \<and>
         filterClause cidrs = [newline] @ ''| where '' @ join '' or '' (clauses cidrs) \<and>
         buildResourceGraphQuery cidrs = join [newline]
           [''Resources'',
            ''| where type in~ ('microsoft.network/virtualnetworks', 'microsoft.network/virtualnetworks/subnets', 'microsoft.network/publicipprefixes', 'microsoft.network/ipgroups')'',
            ''| extend prefixes = case('',
            ''    type =~ 'microsoft.network/virtualnetworks', properties.addressSpace.addressPrefixes,'',
            ''    type =~ 'microsoft.network/virtualnetworks/subnets', coalesce(properties.addressPrefixes, pack_array(properties.addressPrefix)),'',
            ''    type =~ 'microsoft.network/publicipprefixes', pack_array(properties.ipPrefix),'',
            ''    type =~ 'microsoft.network/ipgroups', properties.ipAddresses,'',
            ''    dynamic([])'',
            ''  )'',
            ''| mv-expand prefix = prefixes'',
            ''| where isnotempty(prefix)'',
            ''| extend prefixStr = tolower(tostring(prefix))'',
            ''| where '' @ join '' or '' (clauses cidrs),
            ''| project name, type, location, resourceGroup, subscriptionId, prefixStr, id'']"
proof -
  from assms have "f \<noteq> []" by auto
  with assms have mem: "toLowerCase f \<in> set (wildcardMatches cidrs)"
    by (auto simp: wildcardMatches_def set_lower includes_char_def star_in_toLowerCase)
  then have ne: "wildcardMatches cidrs \<noteq> []" by auto
  have pred: "''prefixStr matches regex '' @ toRegex (toLowerCase f) = wildcard_predicate (toLowerCase f)"
    by (rule toRegex_direct) (rule toLowerCase_no_W)
  from ne have la: "last (clauses cidrs) = join '' or '' (map wildcard_predicate (wildcardMatches cidrs))"
    unfolding clauses_def wildcard_conditions by simp
  from ne have "clauses cidrs \<noteq> []" by (simp add: clauses_def)
  then have fc: "filterClause cidrs = [newline] @ ''| where '' @ join '' or '' (clauses cidrs)"
    by (simp add: filterClause_def)
  have qt: "buildResourceGraphQuery cidrs = join [newline]
           [''Resources'',
            ''| where type in~ ('microsoft.network/virtualnetworks', 'microsoft.network/virtualnetworks/subnets', 'microsoft.network/publicipprefixes', 'microsoft.network/ipgroups')'',
            ''| extend prefixes = case('',
            ''    type =~ 'microsoft.network/virtualnetworks', properties.addressSpace.addressPrefixes,'',
            ''    type =~ 'microsoft.network/virtualnetworks/subnets', coalesce(properties.addressPrefixes, pack_array(properties.addressPrefix)),'',
            ''    type =~ 'microsoft.network/publicipprefixes', pack_array(properties.ipPrefix),'',
            ''    type =~ 'microsoft.network/ipgroups', properties.ipAddresses,'',
            ''    dynamic([])'',
            ''  )'',
            ''| mv-expand prefix = prefixes'',
            ''| where isnotempty(prefix)'',
            ''| extend prefixStr = tolower(tostring(prefix))'',
            ''| where '' @ join '' or '' (clauses cidrs),
            ''| project name, type, location, resourceGroup, subscriptionId, prefixStr, id'']"
    unfolding query_text_with_clause fc by simp
  from mem pred la fc qt show ?thesis by blast
qed

theorem wildcard_predicates_anchored_witness:
  "''10.1.*'' \<in> set [''10.0.0.0/8'', ''10.1.*'', ''*.(5)''] \<and> CHR ''*'' \<in> set ''10.1.*'' \<and>
   toRegex ''10.1.*'' = [quote] @ ''^10'' @ [backslash] @ ''.1'' @ [backslash] @ ''..*$'' @ [quote] \<and>
   filterClause [''10.0.0.0/8'', ''10.1.*'', ''*.(5)''] =
     [newline] @ ''| where prefixStr in~ ('10.0.0.0/8') or prefixStr matches regex '^10'' @ [backslash] @
     ''.1'' @ [backslash] @ ''..*$' or prefixStr matches regex '^.*'' @ [backslash] @ ''.'' @ [backslash] @
     ''(5'' @ [backslash] @ '')$'' @ [quote]"
proof -
  have h1: "''10.1.*'' \<in> set [''10.0.0.0/8'', ''10.1.*'', ''*.(5)'']" by simp
  have h2: "CHR ''*'' \<in> set ''10.1.*''" by simp
  have lw: "toLowerCase ''10.1.*'' = ''10.1.*''" by (simp add: toLowerCase_def toLowerCase_char_def upper_case_letters_def lower_case_letters_def)
  have lo: "lower [''10.0.0.0/8'', ''10.1.*'', ''*.(5)''] = [''10.0.0.0/8'', ''10.1.*'', ''*.(5)'']"
    by (simp add: lower_def Array_from_Set_def Set_add_all_def Set_add_def Boolean_def
        toLowerCase_def toLowerCase_char_def upper_case_letters_def lower_case_letters_def)
  have wm: "wildcardMatches [''10.0.0.0/8'', ''10.1.*'', ''*.(5)''] = [''10.1.*'', ''*.(5)'']"
    by (simp add: wildcardMatches_def lo includes_char_def)
  have em: "exactMatches [''10.0.0.0/8'', ''10.1.*'', ''*.(5)''] = [''10.0.0.0/8'']"
    by (simp add: exactMatches_def lo includes_char_def)
  note inst = wildcard_predicates_anchored [OF h1 h2, unfolded lw]
  have p1: "wildcard_predicate ''10.1.*'' =
      ''prefixStr matches regex '^10'' @ [backslash] @ ''.1'' @ [backslash] @ ''..*$'' @ [quote]"
    by (simp add: wildcard_predicate_def regex_of_wildcard_def replace_char_def)
  have p2: "wildcard_predicate ''*.(5)'' =
      ''prefixStr matches regex '^.*'' @ [backslash] @ ''.'' @ [backslash] @ ''(5'' @ [backslash] @ '')$'' @ [quote]"
    by (simp add: wildcard_predicate_def regex_of_wildcard_def replace_char_def)
  from inst have t1: "toRegex ''10.1.*'' = [quote] @ ''^10'' @ [backslash] @ ''.1'' @ [backslash] @ ''..*$'' @ [quote]"
    by (simp add: p1)
  from inst have la: "last (clauses [''10.0.0.0/8'', ''10.1.*'', ''*.(5)'']) =
       join '' or '' (map wildcard_predicate [''10.1.*'', ''*.(5)''])"
    by (simp only: wm)
  have cl: "clauses [''10.0.0.0/8'', ''10.1.*'', ''*.(5)''] =
      [''prefixStr in~ ('10.0.0.0/8')'', last (clauses [''10.0.0.0/8'', ''10.1.*'', ''*.(5)''])]"
    by (simp add: clauses_def em wm replace_char_def)
  from inst have "filterClause [''10.0.0.0/8'', ''10.1.*'', ''*.(5)''] =
     [newline] @ ''| where '' @ join '' or '' (clauses [''10.0.0.0/8'', ''10.1.*'', ''*.(5)''])"
    by blast
  also have "\<dots> = [newline] @ ''| where prefixStr in~ ('10.0.0.0/8') or prefixStr matches regex '^10'' @ [backslash] @
     ''.1'' @ [backslash] @ ''..*$' or prefixStr matches regex '^.*'' @ [backslash] @ ''.'' @ [backslash] @
     ''(5'' @ [backslash] @ '')$'' @ [quote]"
    by (subst cl) (simp add: la p1 p2)
  finally show ?thesis using h1 h2 t1 by blast
qed

section \<open>The delimited text\<close>

lemma open_add_char:
  "r = None \<or> (\<exists>f fs rs. r = Some ((f # fs) # rs)) \<Longrightarrow>
   add_char c r = None \<or> (\<exists>f fs rs. add_char c r = Some ((f # fs) # rs))"
  by (auto simp: add_char_def)

lemma open_push_field:
  "r = None \<or> (\<exists>f fs rs. r = Some ((f # fs) # rs)) \<Longrightarrow>
   push_field r = None \<or> (\<exists>f fs rs. push_field r = Some ((f # fs) # rs))"
  by (auto simp: push_field_def)

lemma open_push_record:
  "push_record r = None \<or> (\<exists>f fs rs. push_record r = Some ((f # fs) # rs))"
  by (cases r) (simp_all add: push_record_def)

lemma csv_scan_open:
  "st \<noteq> RecordStart \<Longrightarrow>
   csv_scan st s = None \<or> (\<exists>f fs rs. csv_scan st s = Some ((f # fs) # rs))"
proof (induction s arbitrary: st)
  case Nil
  then show ?case by (cases st) simp_all
next
  case (Cons c cs)
  have q: "csv_scan Quoted cs = None \<or> (\<exists>f fs rs. csv_scan Quoted cs = Some ((f # fs) # rs))"
    and a: "csv_scan AfterQuote cs = None \<or> (\<exists>f fs rs. csv_scan AfterQuote cs = Some ((f # fs) # rs))"
    and u: "csv_scan Unquoted cs = None \<or> (\<exists>f fs rs. csv_scan Unquoted cs = Some ((f # fs) # rs))"
    and f: "csv_scan FieldStart cs = None \<or> (\<exists>f fs rs. csv_scan FieldStart cs = Some ((f # fs) # rs))"
    by (rule Cons.IH, simp)+
  show ?case
  proof (cases st)
    case RecordStart
    with Cons.prems show ?thesis by simp
  next
    case FieldStart
    then show ?thesis
      using q open_push_field [OF f] open_push_record open_add_char [OF u] by simp
  next
    case Unquoted
    then show ?thesis
      using open_push_field [OF f] open_push_record open_add_char [OF u] by simp
  next
    case Quoted
    then show ?thesis
      using a open_add_char [OF q] by simp
  next
    case AfterQuote
    then show ?thesis
      using open_add_char [OF q] open_push_field [OF f] open_push_record by simp
  qed
qed

lemma prepend_Nil: "st \<noteq> RecordStart \<Longrightarrow> prepend [] (csv_scan st s) = csv_scan st s"
  using csv_scan_open [of st s] by (auto simp: prepend_def)

lemma add_char_prepend: "add_char c (prepend s res) = prepend (c # s) res"
  by (auto simp: add_char_def prepend_def split: option.splits list.splits)

lemma csv_scan_quoted_body:
  "csv_scan Quoted (replace_char dquote [dquote, dquote] s @ dquote # rest) =
     prepend s (csv_scan AfterQuote rest)"
proof (induction s)
  case Nil
  show ?case by (simp add: replace_char_def prepend_Nil)
next
  case (Cons c s)
  have unfold: "replace_char dquote [dquote, dquote] (c # s) =
      (if c = dquote then [dquote, dquote] else [c]) @ replace_char dquote [dquote, dquote] s"
    by (simp add: replace_char_def)
  show ?case unfolding unfold using Cons.IH by (simp add: add_char_prepend)
qed

lemma csv_scan_quoted_field:
  assumes "st = RecordStart \<or> st = FieldStart"
  shows "csv_scan st (csv_quote s @ rest) = prepend s (csv_scan AfterQuote rest)"
  using assms csv_scan_quoted_body [of s rest] by (auto simp: csv_quote_def)

lemma csv_scan_record:
  assumes "csv_scan AfterQuote rest = push_record R" and "flds \<noteq> []"
    and "st = RecordStart \<or> st = FieldStart"
  shows "csv_scan st (join '','' (map csv_quote flds) @ rest) = map_option (Cons flds) R"
  using assms(2,3)
proof (induction flds arbitrary: st rule: list_nonempty_induct)
  case (single x)
  then show ?case
    by (cases R) (simp_all add: csv_scan_quoted_field assms(1) push_record_def prepend_def)
next
  case (cons x xs)
  from cons.hyps obtain y ys where xs: "xs = y # ys" by (cases xs) auto
  have "csv_scan st (join '','' (map csv_quote (x # xs)) @ rest) =
        csv_scan st (csv_quote x @ (CHR '','' # join '','' (map csv_quote xs) @ rest))"
    by (simp add: xs)
  also have "\<dots> = prepend x (csv_scan AfterQuote (CHR '','' # join '','' (map csv_quote xs) @ rest))"
    using cons.prems by (simp only: csv_scan_quoted_field)
  also have "csv_scan AfterQuote (CHR '','' # join '','' (map csv_quote xs) @ rest) =
        push_field (csv_scan FieldStart (join '','' (map csv_quote xs) @ rest))"
    by simp
  also have "csv_scan FieldStart (join '','' (map csv_quote xs) @ rest) = map_option (Cons xs) R"
    by (rule cons.IH) simp
  finally show ?case by (cases R) (simp_all add: push_field_def prepend_def xs)
qed

lemma csv_scan_records:
  "\<forall>l \<in> set ls. l \<noteq> [] \<Longrightarrow>
   csv_scan RecordStart (join [newline] (map (\<lambda>l. join '','' (map csv_quote l)) ls)) = Some ls"
proof (induction ls rule: induct_list012)
  case 1
  show ?case by simp
next
  case (2 x)
  have "csv_scan RecordStart (join '','' (map csv_quote x) @ []) = map_option (Cons x) (Some [])"
    using 2 by (intro csv_scan_record) (simp_all add: push_record_def)
  then show ?case by simp
next
  case (3 x y zs)
  let ?rest = "join [newline] (map (\<lambda>l. join '','' (map csv_quote l)) (y # zs))"
  have IH: "csv_scan RecordStart ?rest = Some (y # zs)"
    using 3 by simp
  have "csv_scan RecordStart (join '','' (map csv_quote x) @ newline # ?rest) =
        map_option (Cons x) (csv_scan RecordStart ?rest)"
    using "3.prems" by (intro csv_scan_record) simp_all
  then show ?case using IH by simp
qed

lemma csv_quote_Nil: "csv_quote [] = [dquote, dquote]"
  by (simp add: csv_quote_def replace_char_def)

lemma csv_cell_quote: "csv_cell row col = csv_quote (cell_text row col)"
  by (simp add: csv_cell_def cell_text_def csv_quote_Nil split: option.splits jsvalue.splits)

lemma csv_cell_row: "csv_cell row = (\<lambda>col. csv_quote (cell_text row col))"
  by (rule ext) (rule csv_cell_quote)

lemma csvBody_cells:
  "csvBody rows columns =
     join [newline] (map (\<lambda>l. join '','' (map csv_quote l)) (map (\<lambda>row. map (cell_text row) columns) rows))"
  by (simp add: csvBody_def csv_cell_row comp_def)

lemma csv_document:
  assumes "columns \<noteq> []"
  shows "csv_parse (header columns @ [newline] @ csvBody rows columns) =
         Some (columns # map (\<lambda>row. map (cell_text row) columns) rows)"
proof (cases rows)
  case Nil
  have "csv_scan RecordStart (join '','' (map csv_quote columns) @ [newline]) =
        map_option (Cons columns) (Some [])"
    using assms by (intro csv_scan_record) (simp_all add: push_record_def)
  with Nil show ?thesis by (simp add: csv_parse_def header_def csvBody_def)
next
  case (Cons r rs)
  let ?ls = "columns # map (\<lambda>row. map (cell_text row) columns) rows"
  have "header columns @ [newline] @ csvBody rows columns =
        join [newline] (map (\<lambda>l. join '','' (map csv_quote l)) ?ls)"
    unfolding csvBody_cells by (simp add: Cons header_def)
  moreover have "\<forall>l \<in> set ?ls. l \<noteq> []" using assms by auto
  ultimately show ?thesis
    unfolding csv_parse_def using csv_scan_records [of ?ls] by simp
qed

text \<open>
  The layout of the delimited text. The header is the quoted column names joined by
  commas, and the body is one line per row, the lines joined by line feeds, each line the
  quoted cells of the row in the order of the columns. Quoting puts the text between
  double quotes and doubles every double quote in it. A cell whose property access gives
  \<^verbatim>\<open>undefined\<close> is the empty quoted field, and that of an object the quoted JSON text. Read
  back by a reader of delimited text, header and body give the column names and, for each
  row in order, the texts of its cells in column order.
\<close>

lemma delimited_text_layout:
  "header columns = join '','' (map csv_quote columns) \<and>
   csvBody rows columns =
     join [newline] (map (\<lambda>row. join '','' (map (\<lambda>col. csv_quote (cell_text row col)) columns)) rows) \<and>
   csv_quote s = [dquote] @ concat (map (\<lambda>c. if c = dquote then [dquote, dquote] else [c]) s) @ [dquote] \<and>
   (property row col = None \<longrightarrow> csv_cell row col = [dquote, dquote]) \<and>
   (property row col = Some (JObject j) \<longrightarrow> csv_cell row col = csv_quote j) \<and>
   (columns \<noteq> [] \<longrightarrow>
      csv_parse (header columns @ [newline] @ csvBody rows columns) =
        Some (columns # map (\<lambda>row. map (cell_text row) columns) rows))"
proof (intro conjI impI)
  show "header columns = join '','' (map csv_quote columns)" by (simp add: header_def)
  show "csvBody rows columns =
     join [newline] (map (\<lambda>row. join '','' (map (\<lambda>col. csv_quote (cell_text row col)) columns)) rows)"
    by (simp add: csvBody_def csv_cell_row)
  show "csv_quote s = [dquote] @ concat (map (\<lambda>c. if c = dquote then [dquote, dquote] else [c]) s) @ [dquote]"
    by (simp add: csv_quote_def replace_char_def)
  show "csv_cell row col = [dquote, dquote]" if "property row col = None"
    using that by (simp add: csv_cell_def)
  show "csv_cell row col = csv_quote j" if "property row col = Some (JObject j)"
    using that by (simp add: csv_cell_def)
  show "csv_parse (header columns @ [newline] @ csvBody rows columns) =
        Some (columns # map (\<lambda>row. map (cell_text row) columns) rows)" if "columns \<noteq> []"
    using that by (rule csv_document)
qed

lemma delimited_text_layout_example:
  "property [(''q'', JString (''He said '' @ [dquote] @ ''hi'' @ [dquote]))] ''r'' = None \<and>
   csv_cell [(''q'', JString (''He said '' @ [dquote] @ ''hi'' @ [dquote]))] ''r'' = [dquote, dquote] \<and>
   property [(''r'', JObject ''{}'')] ''r'' = Some (JObject ''{}'') \<and>
   csv_cell [(''r'', JObject ''{}'')] ''r'' = [dquote] @ ''{}'' @ [dquote] \<and>
   [''q'', ''r''] \<noteq> [] \<and>
   csvBody [[(''q'', JString (''He said '' @ [dquote] @ ''hi'' @ [dquote]))], [(''r'', JObject ''{}'')]] [''q'', ''r''] =
     [dquote] @ ''He said '' @ [dquote, dquote] @ ''hi'' @ [dquote, dquote, dquote] @ '','' @ [dquote, dquote, newline,
      dquote, dquote] @ '','' @ [dquote] @ ''{}'' @ [dquote] \<and>
   csv_parse (header [''q'', ''r''] @ [newline] @
              csvBody [[(''q'', JString (''He said '' @ [dquote] @ ''hi'' @ [dquote]))], [(''r'', JObject ''{}'')]] [''q'', ''r'']) =
     Some [[''q'', ''r''], [''He said '' @ [dquote] @ ''hi'' @ [dquote], []], [[], ''{}'']]"
proof -
  let ?r1 = "[(''q'', JString (''He said '' @ [dquote] @ ''hi'' @ [dquote]))]"
  let ?r2 = "[(''r'', JObject ''{}'')]"
  have h1: "property ?r1 ''r'' = None" by (simp add: property_def Object_prototype_def native_function_def)
  have h2: "property ?r2 ''r'' = Some (JObject ''{}'')" by (simp add: property_def Object_prototype_def native_function_def)
  have h3: "[''q'', ''r''] \<noteq> []" by simp
  note a = delimited_text_layout [of "[''q'', ''r'']" "[?r1, ?r2]" "''{}''" ?r1 "''r''" "''{}''"]
  note b = delimited_text_layout [of "[''q'', ''r'']" "[?r1, ?r2]" "''{}''" ?r2 "''r''" "''{}''"]
  from a h1 have c1: "csv_cell ?r1 ''r'' = [dquote, dquote]" by blast
  from b h2 have c2: "csv_cell ?r2 ''r'' = [dquote] @ ''{}'' @ [dquote]" by simp
  from a have c3: "csvBody [?r1, ?r2] [''q'', ''r''] =
     [dquote] @ ''He said '' @ [dquote, dquote] @ ''hi'' @ [dquote, dquote, dquote] @ '','' @ [dquote, dquote, newline,
      dquote, dquote] @ '','' @ [dquote] @ ''{}'' @ [dquote]"
    by (simp add: cell_text_def property_def Object_prototype_def native_function_def csv_quote_def replace_char_def)
  from a h3 have "csv_parse (header [''q'', ''r''] @ [newline] @ csvBody [?r1, ?r2] [''q'', ''r'']) =
      Some ([''q'', ''r''] # map (\<lambda>row. map (cell_text row) [''q'', ''r'']) [?r1, ?r2])"
    by blast
  then have c4: "csv_parse (header [''q'', ''r''] @ [newline] @ csvBody [?r1, ?r2] [''q'', ''r'']) =
      Some [[''q'', ''r''], [''He said '' @ [dquote] @ ''hi'' @ [dquote], []], [[], ''{}'']]"
    by (simp add: cell_text_def property_def Object_prototype_def native_function_def)
  from h1 h2 h3 c1 c2 c3 c4 show ?thesis by blast
qed

text \<open>
  C8. The export reads a cell by the property access \<^verbatim>\<open>row[col]\<close>, which also finds the
  members that a row inherits from \<^verbatim>\<open>Object.prototype\<close>. The rows \<^verbatim>\<open>{a:1}\<close> and
  \<^verbatim>\<open>{constructor:'x'}\<close> have the columns \<^verbatim>\<open>a\<close> and \<^verbatim>\<open>constructor\<close>; the first row has no
  field \<^verbatim>\<open>constructor\<close>, and yet its cell is the quoted text of the inherited function and
  not the empty quoted field, in the body and in what the export request hands to
  \<^verbatim>\<open>exportCsv\<close>.
\<close>

theorem export_renders_inherited_member:
  "map_of [(''a'', JNumber ''1'')] ''constructor'' = None \<and>
   collectColumns [[(''a'', JNumber ''1'')], [(''constructor'', JString ''x'')]] = [''a'', ''constructor''] \<and>
   csv_cell [(''a'', JNumber ''1'')] ''constructor'' =
     [dquote] @ ''function Object() { [native code] }'' @ [dquote] \<and>
   csv_cell [(''a'', JNumber ''1'')] ''constructor'' \<noteq> [dquote, dquote] \<and>
   csvBody [[(''a'', JNumber ''1'')], [(''constructor'', JString ''x'')]]
       (collectColumns [[(''a'', JNumber ''1'')], [(''constructor'', JString ''x'')]]) =
     [dquote] @ ''1'' @ [dquote] @ '','' @ [dquote] @ ''function Object() { [native code] }'' @ [dquote] @
     [newline, dquote, dquote] @ '','' @ [dquote] @ ''x'' @ [dquote] \<and>
   snd (onDidReceiveMessage example_env ExportMessage
          (initial_state\<lparr>lastResults := [[(''a'', JNumber ''1'')], [(''constructor'', JString ''x'')]]\<rparr>)) =
     [ExportCsv ''microsoft-azure-cidr-analyzer'' ''azure-cidr-results''
        ([dquote] @ ''1'' @ [dquote] @ '','' @ [dquote] @ ''function Object() { [native code] }'' @ [dquote] @
         [newline, dquote, dquote] @ '','' @ [dquote] @ ''x'' @ [dquote])
        ([dquote] @ ''a'' @ [dquote] @ '','' @ [dquote] @ ''constructor'' @ [dquote, newline])]"
proof -
  have cols: "collectColumns [[(''a'', JNumber ''1'')], [(''constructor'', JString ''x'')]] = [''a'', ''constructor'']"
    by (simp add: collectColumns_def Object_keys_def Set_add_def)
  have cell: "csv_cell [(''a'', JNumber ''1'')] ''constructor'' =
     [dquote] @ ''function Object() { [native code] }'' @ [dquote]"
    by (simp add: csv_cell_def property_def Object_prototype_def native_function_def
        csv_quote_def replace_char_def)
  have body: "csvBody [[(''a'', JNumber ''1'')], [(''constructor'', JString ''x'')]] [''a'', ''constructor''] =
     [dquote] @ ''1'' @ [dquote] @ '','' @ [dquote] @ ''function Object() { [native code] }'' @ [dquote] @
     [newline, dquote, dquote] @ '','' @ [dquote] @ ''x'' @ [dquote]"
    by (simp add: csvBody_def csv_cell_def property_def Object_prototype_def native_function_def
        csv_quote_def replace_char_def)
  have hd: "header [''a'', ''constructor''] = [dquote] @ ''a'' @ [dquote] @ '','' @ [dquote] @ ''constructor'' @ [dquote]"
    by (simp add: header_def csv_quote_def replace_char_def)
  have ex: "snd (onDidReceiveMessage example_env ExportMessage
          (initial_state\<lparr>lastResults := [[(''a'', JNumber ''1'')], [(''constructor'', JString ''x'')]]\<rparr>)) =
     [ExportCsv ''microsoft-azure-cidr-analyzer'' ''azure-cidr-results''
        (csvBody [[(''a'', JNumber ''1'')], [(''constructor'', JString ''x'')]] [''a'', ''constructor''])
        (header [''a'', ''constructor''] @ [newline])]"
    by (simp add: exportCsv_request_def cols Let_def)
  have ne: "csv_cell [(''a'', JNumber ''1'')] ''constructor'' \<noteq> [dquote, dquote]"
    unfolding cell by simp
  show ?thesis
    unfolding ex cols body hd using cell ne by simp
qed

section \<open>The export request and lookups that fail early\<close>

text \<open>
  C9. While \<^verbatim>\<open>lastResults\<close> is empty, which it is from the start and until a lookup has
  stored a row, an export request leaves the state as it is, shows the warning and posts
  the information message, and does nothing else: \<^verbatim>\<open>exportCsv\<close> is not called, so no file is
  written, and the handler ends without an exception.
\<close>

theorem export_without_results:
  assumes "lastResults st = []"
  shows "onDidReceiveMessage e ExportMessage st =
           (st, [ShowWarningMessage ''No results to export yet. Run a search first.'',
                 PostMessage (ShowInfo ''Run a search to export results.'')]) \<and>
         (\<forall>m b c h. ExportCsv m b c h \<notin> set (snd (onDidReceiveMessage e ExportMessage st)))"
  using assms by (simp add: exportCsv_request_def)

theorem export_without_results_witness:
  "lastResults initial_state = [] \<and>
   onDidReceiveMessage example_env ExportMessage initial_state =
     (initial_state, [ShowWarningMessage ''No results to export yet. Run a search first.'',
                      PostMessage (ShowInfo ''Run a search to export results.'')])"
proof -
  have h: "lastResults initial_state = []" by (simp add: initial_state_def)
  from export_without_results [OF h, of example_env] h show ?thesis by blast
qed

lemma lookup_try_failure:
  assumes "lookup_token e = [] \<or>
           (\<exists>err st1. resolveSubscriptions e (lookup_token e) requested st = (Inl err, st1)) \<or>
           (\<exists>st1. resolveSubscriptions e (lookup_token e) requested st = (Inr [], st1))"
  shows "\<exists>st' msg. lookup_try e cidrs requested st = (st', [], Some msg) \<and> lastResults st' = lastResults st"
proof -
  have keep: "lastResults (snd (resolveSubscriptions e t requested st)) = lastResults st" for t
    by (auto simp: resolveSubscriptions_def listSubscriptions_def fetch_subscriptions_def Let_def
        split: option.splits response.splits sum.splits prod.splits if_splits)
  from assms consider (blank) "lookup_token e = []"
    | (failed) err st1 where "lookup_token e \<noteq> []"
        "resolveSubscriptions e (lookup_token e) requested st = (Inl err, st1)"
    | (none) st1 where "lookup_token e \<noteq> []"
        "resolveSubscriptions e (lookup_token e) requested st = (Inr [], st1)"
    by blast
  then show ?thesis
  proof cases
    case blank
    then show ?thesis by (simp add: lookup_try_def)
  next
    case failed
    with keep [of "lookup_token e"] show ?thesis by (simp add: lookup_try_def)
  next
    case none
    with keep [of "lookup_token e"] show ?thesis by (simp add: lookup_try_def)
  qed
qed

text \<open>
  C10. A lookup that ends before the first query, because the token is blank, because the
  resolution of the subscriptions fails, or because it gives no subscription, posts no
  status event and leaves \<^verbatim>\<open>lastResults\<close> as it was; an export request after it does what
  it would have done before it, and with rows retained it calls \<^verbatim>\<open>exportCsv\<close> with the
  delimited text of those rows.
\<close>

theorem failed_lookup_keeps_lastResults:
  assumes "lookup_token e = [] \<or>
           (\<exists>err st1. resolveSubscriptions e (lookup_token e) (lookup_requested subscriptions) st = (Inl err, st1)) \<or>
           (\<exists>st1. resolveSubscriptions e (lookup_token e) (lookup_requested subscriptions) st = (Inr [], st1))"
  shows "lastResults (fst (onDidReceiveMessage e (LookupMessage cidr subscriptions) st)) = lastResults st \<and>
         statuses (snd (onDidReceiveMessage e (LookupMessage cidr subscriptions) st)) = [] \<and>
         snd (onDidReceiveMessage e' ExportMessage (fst (onDidReceiveMessage e (LookupMessage cidr subscriptions) st))) =
           snd (onDidReceiveMessage e' ExportMessage st) \<and>
         (lastResults st \<noteq> [] \<longrightarrow>
            snd (onDidReceiveMessage e' ExportMessage (fst (onDidReceiveMessage e (LookupMessage cidr subscriptions) st))) =
              [ExportCsv ''microsoft-azure-cidr-analyzer'' ''azure-cidr-results''
                 (csvBody (lastResults st) (collectColumns (lastResults st)))
                 (header (collectColumns (lastResults st)) @ [newline])])"
proof -
  from lookup_try_failure [OF assms, of "lookup_cidrs cidr"]
  obtain st' msg where t: "lookup_try e (lookup_cidrs cidr) (lookup_requested subscriptions) st = (st', [], Some msg)"
    and k: "lastResults st' = lastResults st" by blast
  have r: "onDidReceiveMessage e (LookupMessage cidr subscriptions) st =
      (st', [PostMessage (SetLoading True), ShowErrorMessage (''Azure CIDR Analyzer error: '' @ msg),
             PostMessage (ShowError msg), PostMessage (SetLoading False)])"
    by (simp add: lookupCidr_def t)
  show ?thesis unfolding r using k by (simp add: exportCsv_request_def Let_def)
qed

section \<open>The loop over the subscriptions\<close>

lemma query_loop_trace:
  "query_loop e token cidrs subs acc =
     (acc @ concat (map (\<lambda>sub. outcome_rows (queryAzureForCidrs e token cidrs [sub_id sub])) subs),
      concat (map (\<lambda>sub.
        [PostMessage (SubscriptionStatus (sub_id sub) Running),
         PostMessage (SubscriptionStatus (sub_id sub)
           (outcome_status (queryAzureForCidrs e token cidrs [sub_id sub])))]) subs))"
proof (induction subs arbitrary: acc)
  case Nil
  show ?case by simp
next
  case (Cons sub subs)
  show ?case
    by (cases "queryAzureForCidrs e token cidrs [sub_id sub]")
       (simp_all add: Cons.IH outcome_rows_def outcome_status_def)
qed

lemma statuses_append: "statuses (xs @ ys) = statuses xs @ statuses ys"
  by (induction xs rule: statuses.induct) simp_all

lemma statuses_trace:
  "statuses (concat (map (\<lambda>sub.
        [PostMessage (SubscriptionStatus (sub_id sub) Running),
         PostMessage (SubscriptionStatus (sub_id sub) (f sub))]) subs)) =
   concat (map (\<lambda>sub. [(sub_id sub, Running), (sub_id sub, f sub)]) subs)"
  by (induction subs) simp_all

lemma filter_statuses_distinct:
  assumes "distinct (map sub_id subs)" and "sub \<in> set subs"
  shows "filter (\<lambda>ev. fst ev = sub_id sub)
           (concat (map (\<lambda>s. [(sub_id s, Running), (sub_id s, f s)]) subs)) =
         [(sub_id sub, Running), (sub_id sub, f sub)]"
  using assms
proof (induction subs)
  case Nil
  then show ?case by simp
next
  case (Cons a subs)
  show ?case
  proof (cases "sub = a")
    case True
    have "filter (\<lambda>ev. fst ev = sub_id a)
           (concat (map (\<lambda>s. [(sub_id s, Running), (sub_id s, f s)]) subs)) = []"
      using Cons.prems(1) by (auto simp: filter_empty_conv image_iff)
    with True show ?thesis by simp
  next
    case False
    with Cons.prems have "sub \<in> set subs" and "sub_id a \<noteq> sub_id sub" by auto
    with Cons.IH Cons.prems(1) show ?thesis by simp
  qed
qed

text \<open>
  C2. In a lookup whose token is set and whose resolution gives a non-empty list, every
  subscription of the list is queried, in the order of the list. The status events are,
  for each subscription in turn, \<^verbatim>\<open>running\<close> and then either \<^verbatim>\<open>done\<close> with the number of rows
  returned or \<^verbatim>\<open>error\<close> with the message of the failure; the rows retained and displayed
  are those of the successful queries, in the same order; the lookup ends with the display,
  the summary and the end of loading. When the ids of the list are distinct, the events
  of one subscription are exactly its \<^verbatim>\<open>running\<close> event and its one closing event.
\<close>

theorem subscription_failures_isolated:
  assumes "lookup_token e \<noteq> []"
    and "resolveSubscriptions e (lookup_token e) (lookup_requested subscriptions) st = (Inr subs, st1)"
    and "subs \<noteq> []"
  shows "fst (onDidReceiveMessage e (LookupMessage cidr subscriptions) st) =
           st1\<lparr>lastResults :=
                 concat (map (\<lambda>sub. outcome_rows
                   (queryAzureForCidrs e (lookup_token e) (lookup_cidrs cidr) [sub_id sub])) subs)\<rparr> \<and>
         statuses (snd (onDidReceiveMessage e (LookupMessage cidr subscriptions) st)) =
           concat (map (\<lambda>sub.
             [(sub_id sub, Running),
              (sub_id sub, outcome_status
                 (queryAzureForCidrs e (lookup_token e) (lookup_cidrs cidr) [sub_id sub]))]) subs) \<and>
         (\<exists>pre. snd (onDidReceiveMessage e (LookupMessage cidr subscriptions) st) =
            pre @
            [PostMessage (DisplayResults (lookup_cidrs cidr)
               (lastResults (fst (onDidReceiveMessage e (LookupMessage cidr subscriptions) st)))
               (collectColumns (lastResults (fst (onDidReceiveMessage e (LookupMessage cidr subscriptions) st))))),
             PostMessage (ShowInfo (summaryText (lookup_cidrs cidr)
               (lastResults (fst (onDidReceiveMessage e (LookupMessage cidr subscriptions) st))))),
             PostMessage (SetLoading False)]) \<and>
         (distinct (map sub_id subs) \<longrightarrow>
            (\<forall>sub \<in> set subs.
               filter (\<lambda>ev. fst ev = sub_id sub)
                 (statuses (snd (onDidReceiveMessage e (LookupMessage cidr subscriptions) st))) =
               [(sub_id sub, Running),
                (sub_id sub, outcome_status
                   (queryAzureForCidrs e (lookup_token e) (lookup_cidrs cidr) [sub_id sub]))]))"
proof -
  let ?q = "\<lambda>sub. queryAzureForCidrs e (lookup_token e) (lookup_cidrs cidr) [sub_id sub]"
  let ?rows = "concat (map (\<lambda>sub. outcome_rows (?q sub)) subs)"
  let ?events = "concat (map (\<lambda>sub.
        [PostMessage (SubscriptionStatus (sub_id sub) Running),
         PostMessage (SubscriptionStatus (sub_id sub) (outcome_status (?q sub)))]) subs)"
  have t: "lookup_try e (lookup_cidrs cidr) (lookup_requested subscriptions) st =
      (st1\<lparr>lastResults := ?rows\<rparr>,
       [PostMessage (InitSubscriptions subs)] @ ?events @
       [PostMessage (DisplayResults (lookup_cidrs cidr) ?rows (collectColumns ?rows)),
        PostMessage (ShowInfo (summaryText (lookup_cidrs cidr) ?rows))],
       None)"
    using assms by (simp add: lookup_try_def query_loop_trace)
  have r: "onDidReceiveMessage e (LookupMessage cidr subscriptions) st =
      (st1\<lparr>lastResults := ?rows\<rparr>,
       [PostMessage (SetLoading True), PostMessage (InitSubscriptions subs)] @ ?events @
       [PostMessage (DisplayResults (lookup_cidrs cidr) ?rows (collectColumns ?rows)),
        PostMessage (ShowInfo (summaryText (lookup_cidrs cidr) ?rows)),
        PostMessage (SetLoading False)])"
    by (simp add: lookupCidr_def t)
  have s: "statuses (snd (onDidReceiveMessage e (LookupMessage cidr subscriptions) st)) =
      concat (map (\<lambda>sub. [(sub_id sub, Running), (sub_id sub, outcome_status (?q sub))]) subs)"
    unfolding r by (simp add: statuses_append statuses_trace)
  show ?thesis
  proof (intro conjI impI ballI)
    show "fst (onDidReceiveMessage e (LookupMessage cidr subscriptions) st) = st1\<lparr>lastResults := ?rows\<rparr>"
      by (simp only: r fst_conv)
    show "statuses (snd (onDidReceiveMessage e (LookupMessage cidr subscriptions) st)) =
      concat (map (\<lambda>sub. [(sub_id sub, Running), (sub_id sub, outcome_status (?q sub))]) subs)"
      by (rule s)
    show "\<exists>pre. snd (onDidReceiveMessage e (LookupMessage cidr subscriptions) st) =
            pre @
            [PostMessage (DisplayResults (lookup_cidrs cidr)
               (lastResults (fst (onDidReceiveMessage e (LookupMessage cidr subscriptions) st)))
               (collectColumns (lastResults (fst (onDidReceiveMessage e (LookupMessage cidr subscriptions) st))))),
             PostMessage (ShowInfo (summaryText (lookup_cidrs cidr)
               (lastResults (fst (onDidReceiveMessage e (LookupMessage cidr subscriptions) st))))),
             PostMessage (SetLoading False)]"
      unfolding r by (intro exI [of _ "[PostMessage (SetLoading True), PostMessage (InitSubscriptions subs)] @ ?events"]) simp
    show "filter (\<lambda>ev. fst ev = sub_id sub)
                 (statuses (snd (onDidReceiveMessage e (LookupMessage cidr subscriptions) st))) =
               [(sub_id sub, Running), (sub_id sub, outcome_status (?q sub))]"
      if "distinct (map sub_id subs)" and "sub \<in> set subs" for sub
      unfolding s using that by (rule filter_statuses_distinct)
  qed
qed

section \<open>The subscription resolver\<close>

lemma fold_upd_map_add:
  "fold (\<lambda>(k, v) m. m(k \<mapsto> v)) kvs m0 = m0 ++ map_of (rev kvs)"
proof (induction kvs arbitrary: m0)
  case Nil
  show ?case by simp
next
  case (Cons a kvs)
  obtain k v where a: "a = (k, v)" by (cases a)
  have "fold (\<lambda>(k, v) m. m(k \<mapsto> v)) (a # kvs) m0 =
        fold (\<lambda>(k, v) m. m(k \<mapsto> v)) kvs (m0(k \<mapsto> v))"
    by (simp add: a)
  also have "\<dots> = m0(k \<mapsto> v) ++ map_of (rev kvs)"
    by (rule Cons.IH)
  also have "\<dots> = m0 ++ map_of (rev (a # kvs))"
    by (rule ext) (simp add: a map_add_def split: option.splits)
  finally show ?case .
qed

lemma new_Map_map_of: "new_Map kvs = map_of (rev kvs)"
  by (simp add: new_Map_def fold_upd_map_add)

lemma map_of_keyed_find:
  "map_of (map (\<lambda>s. (k s, s)) xs) key = find (\<lambda>s. k s = key) xs"
  by (induction xs) auto

lemma byId_entry:
  "(case new_Map (map (\<lambda>sub. (toLowerCase (sub_id sub), sub)) catalog) (toLowerCase raw) of
      Some match \<Rightarrow> match
    | None \<Rightarrow> \<lparr>sub_id = raw, sub_name = None\<rparr>) = entry_for catalog raw"
  by (simp add: new_Map_map_of rev_map map_of_keyed_find entry_for_def)

lemma filter_seen_step:
  "filter (\<lambda>r. toLowerCase r \<noteq> key) (filter (\<lambda>r. toLowerCase r \<notin> set seen) rest) =
   filter (\<lambda>r. toLowerCase r \<notin> set (Set_add seen key)) rest"
  by (induction rest) (simp_all add: set_Set_add)

lemma resolve_loop_first_requests:
  "resolve_loop (new_Map (map (\<lambda>sub. (toLowerCase (sub_id sub), sub)) catalog)) rest unique seen =
     unique @ map (entry_for catalog) (first_requests (filter (\<lambda>r. toLowerCase r \<notin> set seen) rest))"
proof (induction rest arbitrary: unique seen)
  case Nil
  show ?case by simp
next
  case (Cons raw rest)
  let ?byId = "new_Map (map (\<lambda>sub. (toLowerCase (sub_id sub), sub)) catalog)"
  show ?case
  proof (cases "toLowerCase raw \<in> set seen")
    case True
    then have "resolve_loop ?byId (raw # rest) unique seen = resolve_loop ?byId rest unique seen"
      by (simp add: Let_def)
    with True show ?thesis by (simp add: Cons.IH del: resolve_loop.simps)
  next
    case False
    then have "resolve_loop ?byId (raw # rest) unique seen =
        resolve_loop ?byId rest (unique @ [entry_for catalog raw]) (Set_add seen (toLowerCase raw))"
      by (simp add: Let_def byId_entry)
    also have "\<dots> = (unique @ [entry_for catalog raw]) @ map (entry_for catalog)
        (first_requests (filter (\<lambda>r. toLowerCase r \<notin> set (Set_add seen (toLowerCase raw))) rest))"
      by (rule Cons.IH)
    also have "\<dots> = unique @ map (entry_for catalog)
        (first_requests (raw # filter (\<lambda>r. toLowerCase r \<notin> set seen) rest))"
      by (simp add: filter_seen_step del: filter_filter)
    also have "raw # filter (\<lambda>r. toLowerCase r \<notin> set seen) rest =
        filter (\<lambda>r. toLowerCase r \<notin> set seen) (raw # rest)"
      using False by simp
    finally show ?thesis .
  qed
qed

lemma first_requests_keys:
  "toLowerCase ` set (first_requests xs) = toLowerCase ` set xs \<and>
   distinct (map toLowerCase (first_requests xs)) \<and>
   subseq (first_requests xs) xs"
proof (induction xs rule: first_requests.induct)
  case 1
  show ?case by simp
next
  case (2 raw rest)
  let ?f = "filter (\<lambda>r. toLowerCase r \<noteq> toLowerCase raw) rest"
  from 2 have s: "toLowerCase ` set (first_requests ?f) = toLowerCase ` set ?f"
    and d: "distinct (map toLowerCase (first_requests ?f))"
    and q: "subseq (first_requests ?f) ?f" by simp_all
  have "toLowerCase ` set (first_requests (raw # rest)) = insert (toLowerCase raw) (toLowerCase ` set ?f)"
    by (simp add: s)
  also have "\<dots> = toLowerCase ` set (raw # rest)" by auto
  finally have 1: "toLowerCase ` set (first_requests (raw # rest)) = toLowerCase ` set (raw # rest)" .
  have "toLowerCase raw \<notin> toLowerCase ` set ?f" by auto
  with s d have 2: "distinct (map toLowerCase (first_requests (raw # rest)))" by simp
  have "subseq ?f rest" by simp
  with q have "subseq (first_requests ?f) rest" by (rule subseq_order.trans)
  then have 3: "subseq (first_requests (raw # rest)) (raw # rest)" by simp
  from 1 2 3 show ?case by blast
qed

lemma first_requests_first:
  "raw \<in> set (first_requests xs) \<Longrightarrow> find (\<lambda>r. toLowerCase r = toLowerCase raw) xs = Some raw"
proof (induction xs rule: first_requests.induct)
  case 1
  then show ?case by simp
next
  case (2 a rest)
  let ?f = "filter (\<lambda>r. toLowerCase r \<noteq> toLowerCase a) rest"
  show ?case
  proof (cases "raw = a")
    case True
    then show ?thesis by simp
  next
    case False
    with "2.prems" have m: "raw \<in> set (first_requests ?f)" by simp
    then have "toLowerCase raw \<in> toLowerCase ` set ?f"
      using first_requests_keys [of ?f] by blast
    then have ne: "toLowerCase a \<noteq> toLowerCase raw" by auto
    from "2.IH" m have "find (\<lambda>r. toLowerCase r = toLowerCase raw) ?f = Some raw" by simp
    moreover have "find (\<lambda>r. toLowerCase r = toLowerCase raw) ?f = find (\<lambda>r. toLowerCase r = toLowerCase raw) rest"
      using ne by (induction rest) auto
    ultimately show ?thesis using ne by simp
  qed
qed

lemma find_Some_member: "find P xs = Some x \<Longrightarrow> x \<in> set xs \<and> P x"
  by (induction xs) (auto split: if_splits)

lemma entry_for_found:
  assumes "\<exists>sub \<in> set catalog. toLowerCase (sub_id sub) = toLowerCase raw"
  shows "entry_for catalog raw \<in> set catalog \<and> toLowerCase (sub_id (entry_for catalog raw)) = toLowerCase raw"
proof -
  from assms have "find (\<lambda>sub. toLowerCase (sub_id sub) = toLowerCase raw) (rev catalog) \<noteq> None"
    by (auto simp: find_None_iff)
  then obtain sub where f: "find (\<lambda>sub. toLowerCase (sub_id sub) = toLowerCase raw) (rev catalog) = Some sub"
    by blast
  then have "sub \<in> set (rev catalog) \<and> toLowerCase (sub_id sub) = toLowerCase raw"
    by (rule find_Some_member)
  with f show ?thesis by (simp add: entry_for_def)
qed

lemma entry_for_missing:
  assumes "\<forall>sub \<in> set catalog. toLowerCase (sub_id sub) \<noteq> toLowerCase raw"
  shows "entry_for catalog raw = \<lparr>sub_id = raw, sub_name = None\<rparr>"
proof -
  from assms have "find (\<lambda>sub. toLowerCase (sub_id sub) = toLowerCase raw) (rev catalog) = None"
    by (simp add: find_None_iff)
  then show ?thesis by (simp add: entry_for_def)
qed

text \<open>
  C4. When the catalog can be listed: for an empty request the result is the catalog as
  listed; for any other request it has, for each requested id that does not repeat an
  earlier one up to case and in the order of the request, the entry that stands for it.
  Those ids are a subsequence of the request, differ pairwise up to case, cover every
  requested id up to case, are as many as the request has ids up to case, and each is the
  first of the request with its lower-cased form. The entry of an id is an entry of the
  catalog with the same id up to case when there is one, and otherwise the entry with the
  requested id as written and no name.
\<close>

theorem resolveSubscriptions_result:
  assumes "listSubscriptions e token st = (Inr catalog, st')"
  shows "resolveSubscriptions e token [] st = (Inr catalog, st') \<and>
         (requested \<noteq> [] \<longrightarrow>
            resolveSubscriptions e token requested st =
              (Inr (map (entry_for catalog) (first_requests requested)), st')) \<and>
         subseq (first_requests requested) requested \<and>
         distinct (map toLowerCase (first_requests requested)) \<and>
         toLowerCase ` set (first_requests requested) = toLowerCase ` set requested \<and>
         length (first_requests requested) = card (toLowerCase ` set requested) \<and>
         (\<forall>raw \<in> set (first_requests requested).
            find (\<lambda>r. toLowerCase r = toLowerCase raw) requested = Some raw) \<and>
         (\<forall>raw. (\<exists>sub \<in> set catalog. toLowerCase (sub_id sub) = toLowerCase raw) \<longrightarrow>
            entry_for catalog raw \<in> set catalog \<and>
            toLowerCase (sub_id (entry_for catalog raw)) = toLowerCase raw) \<and>
         (\<forall>raw. (\<forall>sub \<in> set catalog. toLowerCase (sub_id sub) \<noteq> toLowerCase raw) \<longrightarrow>
            entry_for catalog raw = \<lparr>sub_id = raw, sub_name = None\<rparr>)"
proof -
  have 1: "resolveSubscriptions e token [] st = (Inr catalog, st')"
    using assms by (simp add: resolveSubscriptions_def)
  have 2: "resolveSubscriptions e token requested st =
              (Inr (map (entry_for catalog) (first_requests requested)), st')" if "requested \<noteq> []"
    using assms that by (simp add: resolveSubscriptions_def resolve_loop_first_requests)
  note k = first_requests_keys [of requested]
  have "length (first_requests requested) = length (map toLowerCase (first_requests requested))" by simp
  also have "\<dots> = card (set (map toLowerCase (first_requests requested)))"
    using k by (simp only: distinct_card)
  also have "\<dots> = card (toLowerCase ` set requested)" using k by simp
  finally have 3: "length (first_requests requested) = card (toLowerCase ` set requested)" .
  show ?thesis
  proof (intro conjI impI allI ballI)
    show "resolveSubscriptions e token [] st = (Inr catalog, st')" by (rule 1)
    show "resolveSubscriptions e token requested st =
              (Inr (map (entry_for catalog) (first_requests requested)), st')" if "requested \<noteq> []"
      using that by (rule 2)
    show "subseq (first_requests requested) requested" using k by simp
    show "distinct (map toLowerCase (first_requests requested))" using k by simp
    show "toLowerCase ` set (first_requests requested) = toLowerCase ` set requested" using k by simp
    show "length (first_requests requested) = card (toLowerCase ` set requested)" by (rule 3)
    show "find (\<lambda>r. toLowerCase r = toLowerCase raw) requested = Some raw"
      if "raw \<in> set (first_requests requested)" for raw
      using that by (rule first_requests_first)
    show "entry_for catalog raw \<in> set catalog"
      if "\<exists>sub \<in> set catalog. toLowerCase (sub_id sub) = toLowerCase raw" for raw
      using entry_for_found [OF that] by simp
    show "toLowerCase (sub_id (entry_for catalog raw)) = toLowerCase raw"
      if "\<exists>sub \<in> set catalog. toLowerCase (sub_id sub) = toLowerCase raw" for raw
      using entry_for_found [OF that] by simp
    show "entry_for catalog raw = \<lparr>sub_id = raw, sub_name = None\<rparr>"
      if "\<forall>sub \<in> set catalog. toLowerCase (sub_id sub) \<noteq> toLowerCase raw" for raw
      using that by (rule entry_for_missing)
  qed
qed

lemma entry_for_key: "toLowerCase (sub_id (entry_for catalog raw)) = toLowerCase raw"
proof (cases "\<exists>sub \<in> set catalog. toLowerCase (sub_id sub) = toLowerCase raw")
  case True
  then show ?thesis by (simp add: entry_for_found)
next
  case False
  then have "entry_for catalog raw = \<lparr>sub_id = raw, sub_name = None\<rparr>"
    by (intro entry_for_missing) blast
  then show ?thesis by simp
qed

lemma resolved_ids_distinct:
  assumes "resolveSubscriptions e token requested st = (Inr subs, st')" and "requested \<noteq> []"
  shows "distinct (map (\<lambda>sub. toLowerCase (sub_id sub)) subs)" and "distinct (map sub_id subs)"
proof -
  obtain r st1 where l: "listSubscriptions e token st = (r, st1)" by (cases "listSubscriptions e token st")
  with assms obtain catalog where s: "subs = map (entry_for catalog) (first_requests requested)"
    by (cases r) (auto simp: resolveSubscriptions_def resolve_loop_first_requests)
  have "map (\<lambda>sub. toLowerCase (sub_id sub)) subs = map toLowerCase (first_requests requested)"
    by (simp add: s entry_for_key)
  then show d: "distinct (map (\<lambda>sub. toLowerCase (sub_id sub)) subs)"
    using first_requests_keys [of requested] by simp
  have "map (\<lambda>sub. toLowerCase (sub_id sub)) subs = map toLowerCase (map sub_id subs)"
    by simp
  with d show "distinct (map sub_id subs)" by (metis distinct_map)
qed

section \<open>The resolved list is never empty, and the example environment\<close>

lemma listSubscriptions_nonempty:
  "listSubscriptions e token st = (Inr catalog, st') \<Longrightarrow> catalog \<noteq> []"
  by (auto simp: listSubscriptions_def fetch_subscriptions_def Let_def
      split: option.splits response.splits if_splits)

lemma resolveSubscriptions_nonempty:
  assumes "resolveSubscriptions e token requested st = (Inr subs, st')"
  shows "subs \<noteq> []"
proof (cases "listSubscriptions e token st")
  case (Pair r st1)
  show ?thesis
  proof (cases r)
    case (Inl err)
    with Pair assms show ?thesis by (simp add: resolveSubscriptions_def)
  next
    case (Inr catalog)
    with Pair have ne: "catalog \<noteq> []" by (auto dest: listSubscriptions_nonempty)
    show ?thesis
    proof (cases requested)
      case Nil
      with Pair Inr assms ne show ?thesis by (simp add: resolveSubscriptions_def)
    next
      case (Cons raw rest)
      with Pair Inr assms show ?thesis
        by (auto simp: resolveSubscriptions_def resolve_loop_first_requests Let_def)
    qed
  qed
qed

lemma example_token: "lookup_token example_env = ''token''"
  by (simp add: lookup_token_def example_env_def trim_def white_space_def)

lemma example_list:
  "listSubscriptions example_env ''token'' initial_state = (Inr example_catalog, example_cached)"
  by (simp add: listSubscriptions_def fetch_subscriptions_def initial_state_def example_env_def
      example_catalog_def example_cached_def Let_def)

lemma example_resolve_all:
  "resolveSubscriptions example_env ''token'' [] initial_state = (Inr example_catalog, example_cached)"
  by (simp add: resolveSubscriptions_def example_list)

lemma example_queries:
  "queryAzureForCidrs example_env ''token'' cidrs [''sub-1''] = Inr example_rows"
  "queryAzureForCidrs example_env ''token'' cidrs [''sub-2''] = Inl ''network error''"
  by (simp_all add: queryAzureForCidrs_def example_env_def)

theorem subscription_failures_isolated_witness:
  "lookup_token example_env \<noteq> [] \<and>
   resolveSubscriptions example_env (lookup_token example_env) (lookup_requested None) initial_state =
     (Inr example_catalog, example_cached) \<and>
   example_catalog \<noteq> [] \<and>
   distinct (map sub_id example_catalog) \<and>
   lastResults (fst (onDidReceiveMessage example_env (LookupMessage ''10.*'' None) initial_state)) =
     example_rows \<and>
   statuses (snd (onDidReceiveMessage example_env (LookupMessage ''10.*'' None) initial_state)) =
     [(''sub-1'', Running), (''sub-1'', Done 3),
      (''sub-2'', Running), (''sub-2'', Error ''network error'')] \<and>
   filter (\<lambda>ev. fst ev = ''sub-2'')
     (statuses (snd (onDidReceiveMessage example_env (LookupMessage ''10.*'' None) initial_state))) =
     [(''sub-2'', Running), (''sub-2'', Error ''network error'')]"
proof -
  have h1: "lookup_token example_env \<noteq> []" by (simp add: example_token)
  have h2: "resolveSubscriptions example_env (lookup_token example_env) (lookup_requested None) initial_state =
     (Inr example_catalog, example_cached)"
    by (simp add: example_token lookup_requested_def example_resolve_all)
  have h3: "example_catalog \<noteq> []" by (simp add: example_catalog_def)
  have h4: "distinct (map sub_id example_catalog)" by (simp add: example_catalog_def)
  have m: "\<lparr>sub_id = ''sub-2'', sub_name = None\<rparr> \<in> set example_catalog"
    by (simp add: example_catalog_def)
  note inst = subscription_failures_isolated [OF h1 h2 h3, of "''10.*''"]
  from inst have c1: "lastResults (fst (onDidReceiveMessage example_env (LookupMessage ''10.*'' None) initial_state)) =
     example_rows"
    by (simp add: example_token example_queries example_catalog_def outcome_rows_def)
  from inst have c2: "statuses (snd (onDidReceiveMessage example_env (LookupMessage ''10.*'' None) initial_state)) =
     [(''sub-1'', Running), (''sub-1'', Done 3),
      (''sub-2'', Running), (''sub-2'', Error ''network error'')]"
    by (simp add: example_token example_queries example_catalog_def outcome_status_def example_rows_def)
  from inst h4 m have "filter (\<lambda>ev. fst ev = sub_id \<lparr>sub_id = ''sub-2'', sub_name = None\<rparr>)
     (statuses (snd (onDidReceiveMessage example_env (LookupMessage ''10.*'' None) initial_state))) =
     [(sub_id \<lparr>sub_id = ''sub-2'', sub_name = None\<rparr>, Running),
      (sub_id \<lparr>sub_id = ''sub-2'', sub_name = None\<rparr>,
       outcome_status (queryAzureForCidrs example_env (lookup_token example_env) (lookup_cidrs ''10.*'')
         [sub_id \<lparr>sub_id = ''sub-2'', sub_name = None\<rparr>]))]"
    by blast
  then have c3: "filter (\<lambda>ev. fst ev = ''sub-2'')
     (statuses (snd (onDidReceiveMessage example_env (LookupMessage ''10.*'' None) initial_state))) =
     [(''sub-2'', Running), (''sub-2'', Error ''network error'')]"
    by (simp add: example_token example_queries outcome_status_def)
  from h1 h2 h3 h4 c1 c2 c3 show ?thesis by blast
qed

theorem resolveSubscriptions_result_witness:
  "listSubscriptions example_env ''token'' initial_state = (Inr example_catalog, example_cached) \<and>
   resolveSubscriptions example_env ''token'' [] initial_state = (Inr example_catalog, example_cached) \<and>
   [''SUB-1'', ''unknown-id'', ''Sub-1''] \<noteq> [] \<and>
   resolveSubscriptions example_env ''token'' [''SUB-1'', ''unknown-id'', ''Sub-1''] initial_state =
     (Inr [\<lparr>sub_id = ''sub-1'', sub_name = Some ''Prod''\<rparr>, \<lparr>sub_id = ''unknown-id'', sub_name = None\<rparr>],
      example_cached)"
proof -
  note inst = resolveSubscriptions_result [OF example_list, of "[''SUB-1'', ''unknown-id'', ''Sub-1'']"]
  have ne: "[''SUB-1'', ''unknown-id'', ''Sub-1''] \<noteq> []" by simp
  have lc: "toLowerCase ''SUB-1'' = ''sub-1''" "toLowerCase ''Sub-1'' = ''sub-1''"
    "toLowerCase ''unknown-id'' = ''unknown-id''" "toLowerCase ''sub-1'' = ''sub-1''"
    "toLowerCase ''sub-2'' = ''sub-2''"
    by (simp_all add: toLowerCase_def toLowerCase_char_def upper_case_letters_def lower_case_letters_def)
  have fr: "first_requests [''SUB-1'', ''unknown-id'', ''Sub-1''] = [''SUB-1'', ''unknown-id'']"
    by (simp add: lc)
  have en: "map (entry_for example_catalog) [''SUB-1'', ''unknown-id''] =
      [\<lparr>sub_id = ''sub-1'', sub_name = Some ''Prod''\<rparr>, \<lparr>sub_id = ''unknown-id'', sub_name = None\<rparr>]"
    by (simp add: entry_for_def example_catalog_def lc)
  from inst ne have "resolveSubscriptions example_env ''token'' [''SUB-1'', ''unknown-id'', ''Sub-1''] initial_state =
     (Inr (map (entry_for example_catalog) (first_requests [''SUB-1'', ''unknown-id'', ''Sub-1''])), example_cached)"
    by blast
  then have c: "resolveSubscriptions example_env ''token'' [''SUB-1'', ''unknown-id'', ''Sub-1''] initial_state =
     (Inr [\<lparr>sub_id = ''sub-1'', sub_name = Some ''Prod''\<rparr>, \<lparr>sub_id = ''unknown-id'', sub_name = None\<rparr>],
      example_cached)"
    by (simp only: fr en)
  from inst have a: "resolveSubscriptions example_env ''token'' [] initial_state = (Inr example_catalog, example_cached)"
    by blast
  from example_list a ne c show ?thesis by blast
qed

lemma example_columns: "collectColumns example_rows = [''name'', ''prefixStr'']"
  by (simp add: collectColumns_def example_rows_def Object_keys_def Set_add_def)

theorem failed_lookup_keeps_lastResults_witness:
  "lookup_token (example_env\<lparr>azureGraphToken := None\<rparr>) = [] \<and>
   lastResults (fst (onDidReceiveMessage (example_env\<lparr>azureGraphToken := None\<rparr>)
     (LookupMessage ''10.*'' None) (example_cached\<lparr>lastResults := example_rows\<rparr>))) = example_rows \<and>
   snd (onDidReceiveMessage example_env ExportMessage
     (fst (onDidReceiveMessage (example_env\<lparr>azureGraphToken := None\<rparr>)
        (LookupMessage ''10.*'' None) (example_cached\<lparr>lastResults := example_rows\<rparr>)))) =
     [ExportCsv ''microsoft-azure-cidr-analyzer'' ''azure-cidr-results''
        (csvBody example_rows [''name'', ''prefixStr''])
        (header [''name'', ''prefixStr''] @ [newline])] \<and>
   resolveSubscriptions (example_env\<lparr>subscriptions_api := (\<lambda>token. NotOk ''denied'')\<rparr>)
     (lookup_token (example_env\<lparr>subscriptions_api := (\<lambda>token. NotOk ''denied'')\<rparr>))
     (lookup_requested None) (initial_state\<lparr>lastResults := example_rows\<rparr>) =
     (Inl ''Unable to list subscriptions: denied'', initial_state\<lparr>lastResults := example_rows\<rparr>) \<and>
   lastResults (fst (onDidReceiveMessage (example_env\<lparr>subscriptions_api := (\<lambda>token. NotOk ''denied'')\<rparr>)
     (LookupMessage ''10.*'' None) (initial_state\<lparr>lastResults := example_rows\<rparr>))) = example_rows"
proof -
  let ?e1 = "example_env\<lparr>azureGraphToken := None\<rparr>"
  let ?s1 = "example_cached\<lparr>lastResults := example_rows\<rparr>"
  let ?e2 = "example_env\<lparr>subscriptions_api := (\<lambda>token. NotOk ''denied'')\<rparr>"
  let ?s2 = "initial_state\<lparr>lastResults := example_rows\<rparr>"
  have h1: "lookup_token ?e1 = []" by (simp add: lookup_token_def trim_def)
  have t2: "lookup_token ?e2 = ''token''"
    by (simp add: lookup_token_def example_env_def trim_def white_space_def)
  have h2: "resolveSubscriptions ?e2 (lookup_token ?e2) (lookup_requested None) ?s2 =
     (Inl ''Unable to list subscriptions: denied'', ?s2)"
    by (simp add: t2 resolveSubscriptions_def listSubscriptions_def fetch_subscriptions_def
        initial_state_def)
  have ne: "example_rows \<noteq> []" by (simp add: example_rows_def)
  from h1 have d1: "lookup_token ?e1 = [] \<or>
      (\<exists>err st1. resolveSubscriptions ?e1 (lookup_token ?e1) (lookup_requested None) ?s1 = (Inl err, st1)) \<or>
      (\<exists>st1. resolveSubscriptions ?e1 (lookup_token ?e1) (lookup_requested None) ?s1 = (Inr [], st1))"
    by blast
  from h2 have d2: "lookup_token ?e2 = [] \<or>
      (\<exists>err st1. resolveSubscriptions ?e2 (lookup_token ?e2) (lookup_requested None) ?s2 = (Inl err, st1)) \<or>
      (\<exists>st1. resolveSubscriptions ?e2 (lookup_token ?e2) (lookup_requested None) ?s2 = (Inr [], st1))"
    by blast
  note i1 = failed_lookup_keeps_lastResults [OF d1, of "''10.*''" example_env]
  note i2 = failed_lookup_keeps_lastResults [OF d2, of "''10.*''" example_env]
  from i1 have c1: "lastResults (fst (onDidReceiveMessage ?e1 (LookupMessage ''10.*'' None) ?s1)) = example_rows"
    by simp
  have lr: "lastResults ?s1 = example_rows" by simp
  from i1 have "lastResults ?s1 \<noteq> [] \<longrightarrow>
     snd (onDidReceiveMessage example_env ExportMessage
       (fst (onDidReceiveMessage ?e1 (LookupMessage ''10.*'' None) ?s1))) =
     [ExportCsv ''microsoft-azure-cidr-analyzer'' ''azure-cidr-results''
        (csvBody (lastResults ?s1) (collectColumns (lastResults ?s1)))
        (header (collectColumns (lastResults ?s1)) @ [newline])]"
    by blast
  then have c2: "snd (onDidReceiveMessage example_env ExportMessage
     (fst (onDidReceiveMessage ?e1 (LookupMessage ''10.*'' None) ?s1))) =
     [ExportCsv ''microsoft-azure-cidr-analyzer'' ''azure-cidr-results''
        (csvBody example_rows [''name'', ''prefixStr''])
        (header [''name'', ''prefixStr''] @ [newline])]"
    unfolding lr example_columns using ne by blast
  from i2 have c3: "lastResults (fst (onDidReceiveMessage ?e2 (LookupMessage ''10.*'' None) ?s2)) = example_rows"
    by simp
  from h1 c1 c2 h2 c3 show ?thesis by blast
qed

end
